theory Spec2Isabelle
  imports Main "HOL-Library.Sublist" "HOL-Library.Multiset"
begin

section \<open>Nightglow: workflow engine and observability sink\<close>

text \<open>
  A shallow embedding of the TypeScript sources: the dependency scheduler
  (\<^verbatim>\<open>Scheduler.plan\<close>), the reconciliation state machine (\<^verbatim>\<open>Reconciler\<close>), the step
  executor (\<^verbatim>\<open>BrowserExecutor\<close>), the Kafka topic routing and producer
  (\<^verbatim>\<open>eventTypeToTopic\<close>, \<^verbatim>\<open>EventProducer\<close>), the alert checks of the instrument factory
  and the instrument registry.

  Conventions: a thrown exception is the \<open>Inl\<close> branch of a sum; mutation is explicit
  state passing; \<^verbatim>\<open>Date.now()\<close> is a parameter \<open>now\<close>; a JavaScript \<^verbatim>\<open>Map\<close> is an
  association list in insertion order; JavaScript numbers that the sources use as
  counters, priorities and limits are \<open>int\<close>.

  Names are those of the sources. Where Isabelle has the name already (a keyword, a
  library constant, a field of another record), the model's name is longer:
  \<^verbatim>\<open>Reconciler.retry\<close> is \<open>retry_task\<close>, the registry's methods are \<open>registry_register\<close>,
  \<open>registry_enable\<close> and so on, \<^verbatim>\<open>measure\<close> is \<open>measure_probe\<close>, \<^verbatim>\<open>extract\<close> is
  \<open>extract_step\<close>, \<^verbatim>\<open>Array.prototype.includes\<close> is \<open>array_includes\<close>, \<^verbatim>\<open>page.$\<close> is
  \<open>query_selector\<close>, and some record fields carry the initials of their record.
\<close>

subsection \<open>Errors\<close>

text \<open>
  The sources throw plain \<^verbatim>\<open>Error\<close> objects that differ in their message only. Each
  message template is one constructor, carrying the values the template interpolates:
  \<^item> \<^verbatim>\<open>Dependency cycle detected among: n1, n2, ...\<close> is \<open>CycleDetected [n1, n2, ...]\<close>;
  \<^item> \<^verbatim>\<open>Unknown task: "n"\<close> is \<open>UnknownTask n\<close>;
  \<^item> \<^verbatim>\<open>Invalid transition for "n": expected "a", got "b"\<close> is \<open>InvalidTransition n a b\<close>;
  \<^item> \<^verbatim>\<open>Cannot fail task "n" in state "s"\<close> is \<open>CannotFail n s\<close>;
  \<^item> a \<^verbatim>\<open>TypeError\<close> of the engine (reading a property of \<^verbatim>\<open>undefined\<close>, converting to
    a string a value that cannot be) is \<open>TypeError\<close>.
\<close>

datatype TaskState = Pending | Scheduled | Running | Succeeded | Failed | Retrying | Escalated

datatype error =
    CycleDetected "string list"
  | UnknownTask string
  | InvalidTransition string TaskState TaskState
  | CannotFail string TaskState
  | TypeError

subsection \<open>The workflow DSL\<close>

text \<open>
  The declarations of \<^verbatim>\<open>dsl/types.ts\<close> (the class diagram of \<^verbatim>\<open>browser/SPEC.md\<close>).
\<close>

record RetryPolicy =
  maxRetries :: int
  backoffMs :: int

record OutputSpec =
  storeAs :: string
  format :: string

record Field =
  field_name :: string
  field_type :: string

datatype Step =
    Navigate (url: string)
  | WaitFor (selector: string) (timeoutMs: int)
  | Click (selector: string)
  | Extract (selector: string) (schema: "Field list")

record Task =
  name :: string
  dependsOn :: "string list"
  steps :: "Step list"
  retry :: RetryPolicy
  task_output :: OutputSpec

record WorkflowPolicy =
  maxConcurrentTasks :: int
  policy_timeoutMs :: int
  failFast :: bool

record BrowserWorkflow =
  workflow_name :: string
  tasks :: "Task list"
  policy :: WorkflowPolicy

text \<open>A task definition for examples: a name, its dependencies and its retry limit.\<close>

definition example_task :: "string \<Rightarrow> string list \<Rightarrow> int \<Rightarrow> Task" where
  "example_task n deps m =
     \<lparr>name = n, dependsOn = deps, steps = [],
      retry = \<lparr>maxRetries = m, backoffMs = 10\<rparr>,
      task_output = \<lparr>storeAs = n, format = ''json''\<rparr>\<rparr>"

subsection \<open>JavaScript \<^verbatim>\<open>Map\<close>: an association list in insertion order\<close>

text \<open>
  \<^verbatim>\<open>Map.prototype.set\<close>: an existing key keeps its position and takes the new value, a
  new key goes to the end. \<^verbatim>\<open>new Map(entries)\<close> sets the entries from left to right.
\<close>

fun map_set :: "('k \<times> 'v) list \<Rightarrow> 'k \<Rightarrow> 'v \<Rightarrow> ('k \<times> 'v) list" where
  "map_set [] k v = [(k, v)]"
| "map_set ((k', v') # m) k v =
     (if k' = k then (k, v) # m else (k', v') # map_set m k v)"

definition new_Map :: "('k \<times> 'v) list \<Rightarrow> ('k \<times> 'v) list" where
  "new_Map entries = foldl (\<lambda>m (k, v). map_set m k v) [] entries"

definition map_keys :: "('k \<times> 'v) list \<Rightarrow> 'k list" where
  "map_keys m = map fst m"

definition map_values :: "('k \<times> 'v) list \<Rightarrow> 'v list" where
  "map_values m = map snd m"

definition map_get :: "('k \<times> 'v) list \<Rightarrow> 'k \<Rightarrow> 'v option" where
  "map_get m k = map_of m k"

subsection \<open>Scheduler.plan\<close>

text \<open>\<^verbatim>\<open>task.dependsOn.every((d) => completed.has(d))\<close>\<close>

definition depsMet :: "string set \<Rightarrow> Task \<Rightarrow> bool" where
  "depsMet completed task = list_all (\<lambda>d. d \<in> completed) (dependsOn task)"

text \<open>
  The \<^verbatim>\<open>for (const name of remaining)\<close> scan that collects \<open>ready\<close>. The source reads
  \<^verbatim>\<open>taskMap.get(name)!\<close>; on a name without entry the next line would read a property of
  \<^verbatim>\<open>undefined\<close>, which throws.
\<close>

fun scan :: "(string \<times> Task) list \<Rightarrow> string set \<Rightarrow> string list \<Rightarrow> error + Task list" where
  "scan taskMap completed [] = Inr []"
| "scan taskMap completed (n # ns) =
     (case map_get taskMap n of
        None \<Rightarrow> Inl TypeError
      | Some task \<Rightarrow>
          (case scan taskMap completed ns of
             Inl e \<Rightarrow> Inl e
           | Inr ready \<Rightarrow> Inr (if depsMet completed task then task # ready else ready)))"

text \<open>
  The \<^verbatim>\<open>while (remaining.size > 0)\<close> loop. \<open>remaining\<close> is a JavaScript \<^verbatim>\<open>Set\<close>, iterated
  in insertion order: a list without duplicates; \<open>completed\<close> is only tested for
  membership: a set. The loop is not obviously terminating (it runs forever on a task map whose
  values carry other names than their keys), so not returning is the value \<open>None\<close>.
\<close>

partial_function (option) plan_loop ::
  "(string \<times> Task) list \<Rightarrow> string set \<Rightarrow> string list \<Rightarrow> Task list list
    \<Rightarrow> (error + Task list list) option" where
  "plan_loop taskMap completed remaining batches =
     (if remaining = [] then Some (Inr batches)
      else
        (case scan taskMap completed remaining of
           Inl e \<Rightarrow> Some (Inl e)
         | Inr ready \<Rightarrow>
             if ready = [] then Some (Inl (CycleDetected remaining))
             else plan_loop taskMap
                    (completed \<union> set (map name ready))
                    (filter (\<lambda>n. n \<notin> set (map name ready)) remaining)
                    (batches @ [ready])))"

declare plan_loop.simps [code]

definition plan :: "BrowserWorkflow \<Rightarrow> (error + Task list list) option" where
  "plan workflow =
     (let taskMap = new_Map (map (\<lambda>t. (name t, t)) (tasks workflow))
      in plan_loop taskMap {} (map_keys taskMap) [])"

text \<open>
  The dependency relation of a task list, for stating the properties: \<open>(d, n)\<close> when the
  task named \<open>n\<close> lists \<open>d\<close> in its \<open>dependsOn\<close>. A name takes part in a cycle when it
  reaches itself in one step or more.
\<close>

definition dep_rel :: "Task list \<Rightarrow> (string \<times> string) set" where
  "dep_rel ts = set (concat (map (\<lambda>t. map (\<lambda>d. (d, name t)) (dependsOn t)) ts))"

definition on_cycle :: "Task list \<Rightarrow> string \<Rightarrow> bool" where
  "on_cycle ts n = ((n, n) \<in> (dep_rel ts)\<^sup>+)"

text \<open>
  The loop invariant of \<open>plan_loop\<close> on the task list \<open>ts\<close>: \<open>remaining\<close> and \<open>completed\<close>
  split the task names; a completed task has all its dependencies completed and is on no
  cycle; the batches hold exactly the completed tasks, once each, every task after its
  dependencies.
\<close>

definition plan_inv :: "Task list \<Rightarrow> string set \<Rightarrow> string list \<Rightarrow> Task list list \<Rightarrow> bool" where
  "plan_inv ts completed remaining batches =
     (distinct remaining \<and> completed \<inter> set remaining = {}
      \<and> completed \<union> set remaining = name ` set ts
      \<and> (\<forall>n \<in> completed. \<forall>d. (d, n) \<in> dep_rel ts \<longrightarrow> d \<in> completed)
      \<and> (\<forall>n \<in> completed. \<not> on_cycle ts n)
      \<and> set (concat batches) \<subseteq> set ts
      \<and> distinct (map name (concat batches))
      \<and> name ` set (concat batches) = completed
      \<and> (\<forall>i < length batches. \<forall>t \<in> set (batches ! i). \<forall>d \<in> set (dependsOn t).
            \<exists>j < i. d \<in> name ` set (batches ! j)))"

text \<open>
  Example workflows: the diamond (B and C depend on A, D on both), a cycle between A
  and B with a third task C that depends on A, and a task list in which two tasks carry
  the name A, the first depending on B.
\<close>

definition example_workflow :: "Task list \<Rightarrow> BrowserWorkflow" where
  "example_workflow ts =
     \<lparr>workflow_name = ''w'', tasks = ts,
      policy = \<lparr>maxConcurrentTasks = 2, policy_timeoutMs = 1000, failFast = False\<rparr>\<rparr>"

definition example_diamond :: "Task list" where
  "example_diamond =
     [example_task ''A'' [] 0, example_task ''B'' [''A''] 0,
      example_task ''C'' [''A''] 0, example_task ''D'' [''B'', ''C''] 0]"

definition example_cyclic :: "Task list" where
  "example_cyclic =
     [example_task ''A'' [''B''] 0, example_task ''B'' [''A''] 0, example_task ''C'' [''A''] 0]"

definition example_duplicate :: "Task list" where
  "example_duplicate =
     [example_task ''A'' [''B''] 0, example_task ''B'' [] 0, example_task ''A'' [] 0]"

subsection \<open>Reconciler\<close>

record TaskStatus =
  state :: TaskState
  retryCount :: int
  lastError :: "string option"
  updatedAt :: int

record ReconcileResult =
  taskName :: string
  previous :: TaskState
  current :: TaskState
  result_error :: "string option"

definition TERMINAL_STATES :: "TaskState set" where
  "TERMINAL_STATES = {Succeeded, Escalated}"

definition initialStatus :: "int \<Rightarrow> TaskStatus" where
  "initialStatus now = \<lparr>state = Pending, retryCount = 0, lastError = None, updatedAt = now\<rparr>"

text \<open>
  The private \<^verbatim>\<open>statuses\<close> map is the whole state of a \<^verbatim>\<open>Reconciler\<close>; only \<^verbatim>\<open>get\<close> and
  \<^verbatim>\<open>set\<close> are used on it, so its order does not matter. A new reconciler is \<open>Map.empty\<close>.
  Every method returns \<open>error + result\<close>, also the two that have no \<^verbatim>\<open>throw\<close> on any path.
\<close>

type_synonym Reconciler = "string \<rightharpoonup> TaskStatus"

definition getStatus :: "Reconciler \<Rightarrow> string \<Rightarrow> error + TaskStatus option" where
  "getStatus statuses n = Inr (statuses n)"

definition register :: "int \<Rightarrow> Reconciler \<Rightarrow> Task \<Rightarrow> error + Reconciler" where
  "register now statuses task = Inr (statuses(name task \<mapsto> initialStatus now))"

definition requireStatus :: "Reconciler \<Rightarrow> string \<Rightarrow> error + TaskStatus" where
  "requireStatus statuses n =
     (case statuses n of None \<Rightarrow> Inl (UnknownTask n) | Some s \<Rightarrow> Inr s)"

definition transition ::
  "int \<Rightarrow> Reconciler \<Rightarrow> string \<Rightarrow> TaskState \<Rightarrow> TaskState \<Rightarrow> error + ReconcileResult \<times> Reconciler"
where
  "transition now statuses n expectedFrom to =
     (case requireStatus statuses n of
        Inl e \<Rightarrow> Inl e
      | Inr status \<Rightarrow>
          if state status \<noteq> expectedFrom
          then Inl (InvalidTransition n expectedFrom (state status))
          else Inr (\<lparr>taskName = n, previous = state status, current = to, result_error = None\<rparr>,
                    statuses(n \<mapsto> status\<lparr>state := to, updatedAt := now\<rparr>)))"

definition schedule :: "int \<Rightarrow> Reconciler \<Rightarrow> string \<Rightarrow> error + ReconcileResult \<times> Reconciler" where
  "schedule now statuses n = transition now statuses n Pending Scheduled"

definition start :: "int \<Rightarrow> Reconciler \<Rightarrow> string \<Rightarrow> error + ReconcileResult \<times> Reconciler" where
  "start now statuses n = transition now statuses n Scheduled Running"

definition succeed :: "int \<Rightarrow> Reconciler \<Rightarrow> string \<Rightarrow> error + ReconcileResult \<times> Reconciler" where
  "succeed now statuses n = transition now statuses n Running Succeeded"

definition fail ::
  "int \<Rightarrow> Reconciler \<Rightarrow> string \<Rightarrow> Task \<Rightarrow> string \<Rightarrow> error + ReconcileResult \<times> Reconciler"
where
  "fail now statuses n task err =
     (case requireStatus statuses n of
        Inl e \<Rightarrow> Inl e
      | Inr status \<Rightarrow>
          if state status \<noteq> Running then Inl (CannotFail n (state status))
          else if retryCount status < maxRetries (retry task)
          then Inr (\<lparr>taskName = n, previous = state status, current = Retrying,
                      result_error = Some err\<rparr>,
                    statuses(n \<mapsto> status\<lparr>state := Retrying,
                                           retryCount := retryCount status + 1,
                                           lastError := Some err, updatedAt := now\<rparr>))
          else Inr (\<lparr>taskName = n, previous = state status, current = Escalated,
                      result_error = Some err\<rparr>,
                    statuses(n \<mapsto> status\<lparr>state := Escalated,
                                           lastError := Some err, updatedAt := now\<rparr>)))"

definition retry_task :: "int \<Rightarrow> Reconciler \<Rightarrow> string \<Rightarrow> error + ReconcileResult \<times> Reconciler" where
  "retry_task now statuses n = transition now statuses n Retrying Running"

definition isTerminal :: "Reconciler \<Rightarrow> string \<Rightarrow> error + bool" where
  "isTerminal statuses n =
     Inr (case statuses n of Some status \<Rightarrow> state status \<in> TERMINAL_STATES | None \<Rightarrow> False)"

text \<open>
  A caller's history: the mutating calls made on one reconciler, each with the clock value
  it reads. A call that throws does so before it writes anything, so it leaves the map as
  it was.
\<close>

datatype rcall =
    Register Task
  | Schedule string
  | Start string
  | Succeed string
  | Fail string Task string
  | Retry string

fun call :: "int \<Rightarrow> Reconciler \<Rightarrow> rcall \<Rightarrow> error + Reconciler" where
  "call now statuses (Register task) = register now statuses task"
| "call now statuses (Schedule n) = map_sum id snd (schedule now statuses n)"
| "call now statuses (Start n) = map_sum id snd (start now statuses n)"
| "call now statuses (Succeed n) = map_sum id snd (succeed now statuses n)"
| "call now statuses (Fail n task err) = map_sum id snd (fail now statuses n task err)"
| "call now statuses (Retry n) = map_sum id snd (retry_task now statuses n)"

definition after_call :: "Reconciler \<Rightarrow> int \<times> rcall \<Rightarrow> Reconciler" where
  "after_call statuses c =
     (case call (fst c) statuses (snd c) of Inl e \<Rightarrow> statuses | Inr statuses' \<Rightarrow> statuses')"

definition after_calls :: "(int \<times> rcall) list \<Rightarrow> Reconciler" where
  "after_calls cs = foldl after_call Map.empty cs"

text \<open>The calls that register, or fail, the task named \<open>n\<close>.\<close>

fun registers :: "string \<Rightarrow> rcall \<Rightarrow> bool" where
  "registers n (Register task) = (name task = n)"
| "registers n _ = False"

fun fails_with :: "string \<Rightarrow> int \<Rightarrow> rcall \<Rightarrow> bool" where
  "fails_with n m (Fail n' task err) = (n' = n \<longrightarrow> maxRetries (retry task) = m)"
| "fails_with n m _ = True"


text \<open>The retry count of a task, if registered, lies between 0 and \<open>m\<close>.\<close>

definition within :: "int \<Rightarrow> TaskStatus option \<Rightarrow> bool" where
  "within m so = (case so of None \<Rightarrow> True | Some s \<Rightarrow> 0 \<le> retryCount s \<and> retryCount s \<le> m)"

subsection \<open>Instrument registry\<close>

datatype InstrumentKind = timing | network | state_kind | behavioral | detection | composite

datatype InstrumentPhase =
  before_action | after_action | during_idle | on_navigation | on_error | continuous

datatype Origin = ai_generated | template | manual

record InstrumentMeta =
  origin :: Origin
  generatedBy :: "string option"
  templateName :: "string option"
  version :: int
  createdAt :: int
  meta_updatedAt :: int

text \<open>The probe (two functions of the context) is left as a type parameter.\<close>

record 'p Instrument =
  instr_id :: string
  instr_name :: string
  kind :: InstrumentKind
  phase :: InstrumentPhase
  actionFilter :: "string list"
  enabled :: bool
  priority :: int
  probe :: 'p
  meta :: InstrumentMeta

text \<open>The private \<^verbatim>\<open>instruments\<close> map, iterated in insertion order by \<^verbatim>\<open>values()\<close>.\<close>

type_synonym 'p InstrumentRegistry = "(string \<times> 'p Instrument) list"

definition registry_register :: "'p InstrumentRegistry \<Rightarrow> 'p Instrument \<Rightarrow> 'p InstrumentRegistry" where
  "registry_register instruments instrument = map_set instruments (instr_id instrument) instrument"

definition registry_unregister :: "'p InstrumentRegistry \<Rightarrow> string \<Rightarrow> bool \<times> 'p InstrumentRegistry" where
  "registry_unregister instruments i =
     (map_get instruments i \<noteq> None, filter (\<lambda>kv. fst kv \<noteq> i) instruments)"

definition registry_enable :: "'p InstrumentRegistry \<Rightarrow> string \<Rightarrow> bool \<times> 'p InstrumentRegistry" where
  "registry_enable instruments i =
     (case map_get instruments i of
        None \<Rightarrow> (False, instruments)
      | Some instrument \<Rightarrow> (True, map_set instruments i (instrument\<lparr>enabled := True\<rparr>)))"

definition registry_disable :: "'p InstrumentRegistry \<Rightarrow> string \<Rightarrow> bool \<times> 'p InstrumentRegistry" where
  "registry_disable instruments i =
     (case map_get instruments i of
        None \<Rightarrow> (False, instruments)
      | Some instrument \<Rightarrow> (True, map_set instruments i (instrument\<lparr>enabled := False\<rparr>)))"

text \<open>
  The optional parameter \<^verbatim>\<open>actionType?: string\<close> is \<open>None\<close> when \<^verbatim>\<open>undefined\<close>. The test
  \<^verbatim>\<open>actionType && ...\<close> is on its truthiness: \<^verbatim>\<open>undefined\<close> and the empty string are falsy.
\<close>

definition truthy :: "string option \<Rightarrow> bool" where
  "truthy a = (case a of None \<Rightarrow> False | Some s \<Rightarrow> s \<noteq> [])"

definition array_includes :: "string list \<Rightarrow> string option \<Rightarrow> bool" where
  "array_includes xs a = (case a of None \<Rightarrow> False | Some s \<Rightarrow> s \<in> set xs)"

text \<open>The loop of \<^verbatim>\<open>getForPhase\<close> over \<^verbatim>\<open>instruments.values()\<close>, one \<^verbatim>\<open>continue\<close> per test.\<close>

fun collect :: "InstrumentPhase \<Rightarrow> string option \<Rightarrow> 'p Instrument list \<Rightarrow> 'p Instrument list" where
  "collect ph actionType [] = []"
| "collect ph actionType (instrument # rest) =
     (if \<not> enabled instrument then collect ph actionType rest
      else if phase instrument \<noteq> ph \<and> phase instrument \<noteq> continuous
      then collect ph actionType rest
      else if length (actionFilter instrument) > 0 \<and> truthy actionType
              \<and> \<not> array_includes (actionFilter instrument) actionType
      then collect ph actionType rest
      else instrument # collect ph actionType rest)"

text \<open>
  \<^verbatim>\<open>results.sort((a, b) => a.priority - b.priority)\<close>: \<^verbatim>\<open>Array.prototype.sort\<close> is stable, as
  is \<open>sort_key\<close>.
\<close>

definition getForPhase ::
  "'p InstrumentRegistry \<Rightarrow> InstrumentPhase \<Rightarrow> string option \<Rightarrow> 'p Instrument list" where
  "getForPhase instruments ph actionType =
     sort_key priority (collect ph actionType (map_values instruments))"

definition getAll :: "'p InstrumentRegistry \<Rightarrow> 'p Instrument list" where
  "getAll instruments = map_values instruments"

text \<open>An instrument for examples: an id, a phase, an action filter, a flag and a priority.\<close>

definition example_instrument ::
  "string \<Rightarrow> InstrumentPhase \<Rightarrow> string list \<Rightarrow> bool \<Rightarrow> int \<Rightarrow> unit Instrument" where
  "example_instrument i ph af en pr =
     \<lparr>instr_id = i, instr_name = i, kind = composite, phase = ph, actionFilter = af,
      enabled = en, priority = pr, probe = (),
      meta = \<lparr>origin = manual, generatedBy = None, templateName = None, version = 1,
              createdAt = 0, meta_updatedAt = 0\<rparr>\<rparr>"

definition example_registry :: "unit InstrumentRegistry" where
  "example_registry =
     [(''x'', example_instrument ''x'' after_action [''click''] True 50),
      (''y'', example_instrument ''y'' continuous [] True 10),
      (''z'', example_instrument ''z'' before_action [] True 5),
      (''w'', example_instrument ''w'' after_action [] False 1)]"

subsection \<open>Kafka topics\<close>

datatype TopicName =
    MEASUREMENTS | ALERTS | ACTIONS | TASKS | SESSIONS | DETECTIONS | ANOMALIES
  | INSTRUMENT_COMMANDS

fun TOPICS :: "TopicName \<Rightarrow> string" where
  "TOPICS MEASUREMENTS = ''measurements''"
| "TOPICS ALERTS = ''alerts''"
| "TOPICS ACTIONS = ''actions''"
| "TOPICS TASKS = ''tasks''"
| "TOPICS SESSIONS = ''sessions''"
| "TOPICS DETECTIONS = ''detections''"
| "TOPICS ANOMALIES = ''anomalies''"
| "TOPICS INSTRUMENT_COMMANDS = ''instrument-commands''"

definition resolveTopicName :: "string \<Rightarrow> TopicName \<Rightarrow> string" where
  "resolveTopicName pfx topic = pfx @ ''.'' @ TOPICS topic"

text \<open>\<^verbatim>\<open>s.startsWith(p)\<close> is \<open>prefix p s\<close>.\<close>

definition eventTypeToTopic :: "string \<Rightarrow> TopicName" where
  "eventTypeToTopic eventType =
     (if prefix ''instrument.measurement'' eventType then MEASUREMENTS
      else if prefix ''instrument.alert'' eventType then ALERTS
      else if prefix ''instrument.lifecycle'' eventType then INSTRUMENT_COMMANDS
      else if prefix ''action.'' eventType then ACTIONS
      else if prefix ''task.'' eventType then TASKS
      else if prefix ''session.'' eventType then SESSIONS
      else if prefix ''detection.'' eventType then DETECTIONS
      else if prefix ''behavioral.'' eventType then ANOMALIES
      else MEASUREMENTS)"

subsection \<open>Event producer\<close>

record 'p NightglowEvent =
  ev_id :: string
  ev_type :: string
  source :: string
  sessionId :: string
  taskId :: string
  timestamp :: int
  payload :: 'p
  traceContext :: "(string \<times> string) option"

text \<open>
  A Kafka message. The renderings to text (\<^verbatim>\<open>JSON.stringify\<close> of the event,
  \<^verbatim>\<open>String\<close> of the timestamp) are parameters of \<open>emit\<close>; the payload is a type parameter.
\<close>

record Message =
  key :: string
  msg_value :: string
  headers :: "(string \<times> string) list"
  msg_timestamp :: string

record BufferedMessage =
  topic :: string
  message :: Message

record TopicMessages =
  tm_topic :: string
  messages :: "Message list"

record EventProducer =
  buffer :: "BufferedMessage list"
  connected :: bool
  batchSize :: int
  topicPrefix :: string

text \<open>
  \<^verbatim>\<open>flush\<close> is asynchronous. It runs without interruption up to
  \<^verbatim>\<open>await this.producer.sendBatch(...)\<close>: it either returns at once (empty buffer, or not
  connected), or takes the whole buffer (\<^verbatim>\<open>this.buffer.splice(0)\<close>), groups it by topic and
  hands the groups to the transport. It resumes when the transport settles; other calls on
  the producer may have run in between.
\<close>

datatype flush_start =
    Returned
  | Sending "BufferedMessage list" "TopicMessages list"

text \<open>The \<^verbatim>\<open>byTopic\<close> map: a topic keeps the position of its first message.\<close>

definition byTopic_add ::
  "(string \<times> Message list) list \<Rightarrow> BufferedMessage \<Rightarrow> (string \<times> Message list) list" where
  "byTopic_add byTopic msg =
     (case map_get byTopic (topic msg) of
        Some existing \<Rightarrow> map_set byTopic (topic msg) (existing @ [message msg])
      | None \<Rightarrow> map_set byTopic (topic msg) [message msg])"

definition group_by_topic :: "BufferedMessage list \<Rightarrow> TopicMessages list" where
  "group_by_topic msgs =
     map (\<lambda>(t, ms). \<lparr>tm_topic = t, messages = ms\<rparr>) (foldl byTopic_add [] msgs)"

definition flush_begin :: "EventProducer \<Rightarrow> flush_start \<times> EventProducer" where
  "flush_begin p =
     (if length (buffer p) = 0 then (Returned, p)
      else if \<not> connected p then (Returned, p)
      else (Sending (buffer p) (group_by_topic (buffer p)), p\<lparr>buffer := []\<rparr>))"

text \<open>
  The transport's answer to \<^verbatim>\<open>sendBatch\<close>, and the rest of \<^verbatim>\<open>flush\<close>. On a rejection the
  \<^verbatim>\<open>catch\<close> clause calls \<^verbatim>\<open>this.buffer.unshift(...messages)\<close>: the spread passes every message
  of the batch as one argument of the call. A JavaScript engine accepts only so many
  arguments (the bound depends on the engine and its stack size: the parameter
  \<open>max_args\<close>) and throws a \<^verbatim>\<open>RangeError\<close> beyond, before \<^verbatim>\<open>unshift\<close> runs. That throw leaves
  the \<^verbatim>\<open>catch\<close> clause: the buffer is not touched, and the log line and \<^verbatim>\<open>throw err\<close> are not
  reached. Within the bound the messages go back to the front and the transport's error
  is thrown again.
\<close>

datatype 'e settled = Resolved | Rejected 'e

datatype 'e flush_thrown = TransportError 'e | RangeError

definition flush_end ::
  "nat \<Rightarrow> 'e settled \<Rightarrow> BufferedMessage list \<Rightarrow> EventProducer
    \<Rightarrow> ('e flush_thrown + unit) \<times> EventProducer" where
  "flush_end max_args outcome msgs p =
     (case outcome of
        Resolved \<Rightarrow> (Inr (), p)
      | Rejected err \<Rightarrow>
          if length msgs > max_args then (Inl RangeError, p)
          else (Inl (TransportError err), p\<lparr>buffer := msgs @ buffer p\<rparr>))"

text \<open>
  \<^verbatim>\<open>emit\<close> appends to the buffer and, at the batch size, starts a flush whose promise it
  does not await: the result says whether a batch went to the transport.
\<close>

definition to_message ::
  "('p NightglowEvent \<Rightarrow> string) \<Rightarrow> (int \<Rightarrow> string) \<Rightarrow> 'p NightglowEvent \<Rightarrow> Message" where
  "to_message stringify str event =
     \<lparr>key = sessionId event,
      msg_value = stringify event,
      headers = [(''event-type'', ev_type event), (''source'', source event),
                 (''trace-id'', case traceContext event of None \<Rightarrow> [] | Some tc \<Rightarrow> fst tc),
                 (''span-id'', case traceContext event of None \<Rightarrow> [] | Some tc \<Rightarrow> snd tc)],
      msg_timestamp = str (timestamp event)\<rparr>"

definition emit ::
  "('p NightglowEvent \<Rightarrow> string) \<Rightarrow> (int \<Rightarrow> string) \<Rightarrow> EventProducer \<Rightarrow> 'p NightglowEvent
    \<Rightarrow> flush_start \<times> EventProducer" where
  "emit stringify str p event =
     (let topicName = eventTypeToTopic (ev_type event);
          fullTopic = resolveTopicName (topicPrefix p) topicName;
          p' = p\<lparr>buffer := buffer p @ [\<lparr>topic = fullTopic,
                                         message = to_message stringify str event\<rparr>]\<rparr>
      in if int (length (buffer p')) \<ge> batchSize p' then flush_begin p' else (Returned, p'))"

definition bufferedCount :: "EventProducer \<Rightarrow> nat" where
  "bufferedCount p = length (buffer p)"

text \<open>Example values: a producer with two buffered messages, and an event.\<close>

definition example_message :: "string \<Rightarrow> string \<Rightarrow> BufferedMessage" where
  "example_message t v =
     \<lparr>topic = t, message = \<lparr>key = ''s1'', msg_value = v, headers = [], msg_timestamp = ''0''\<rparr>\<rparr>"

definition example_producer :: EventProducer where
  "example_producer =
     \<lparr>buffer = [example_message ''ng.tasks'' ''m1'', example_message ''ng.alerts'' ''m2''],
      connected = True, batchSize = 50, topicPrefix = ''ng''\<rparr>"

text \<open>A producer whose buffer holds 200000 messages.\<close>

definition example_large_batch :: "BufferedMessage list" where
  "example_large_batch = replicate 200000 (example_message ''ng.tasks'' ''m'')"

definition example_large_producer :: EventProducer where
  "example_large_producer =
     \<lparr>buffer = example_large_batch, connected = True, batchSize = 50, topicPrefix = ''ng''\<rparr>"

definition example_event :: "unit NightglowEvent" where
  "example_event =
     \<lparr>ev_id = ''e3'', ev_type = ''task.started'', source = ''runner'', sessionId = ''s1'',
      taskId = ''t1'', timestamp = 3, payload = (), traceContext = None\<rparr>"

subsection \<open>JavaScript objects used as mappings\<close>

text \<open>
  Both the probe's \<^verbatim>\<open>data\<close> and the extract step's \<^verbatim>\<open>result\<close> are plain objects created by
  \<^verbatim>\<open>{}\<close> and used as mappings from strings. Such an object has its own properties and,
  unless its prototype has been set to \<^verbatim>\<open>null\<close>, inherits the members of
  \<^verbatim>\<open>Object.prototype\<close> (taken in its standard state). Reading \<^verbatim>\<open>obj[k]\<close> finds an own
  property first and an inherited member otherwise; the member \<^verbatim>\<open>__proto__\<close> is an accessor
  whose getter yields the prototype and whose setter replaces it.
\<close>

record 'a js_object =
  own :: "string \<rightharpoonup> 'a"
  inherits :: bool

definition empty_object :: "'a js_object" where
  "empty_object = \<lparr>own = Map.empty, inherits = True\<rparr>"

definition Object_prototype_members :: "string list" where
  "Object_prototype_members =
     [''constructor'', ''__defineGetter__'', ''__defineSetter__'', ''hasOwnProperty'',
      ''__lookupGetter__'', ''__lookupSetter__'', ''isPrototypeOf'', ''propertyIsEnumerable'',
      ''toString'', ''valueOf'', ''__proto__'', ''toLocaleString'']"

subsection \<open>Instrument factory: alert checks\<close>

text \<open>
  What a \<^verbatim>\<open>catch\<close> receives: an \<^verbatim>\<open>Error\<close> instance with its message, another thrown value
  with its \<^verbatim>\<open>String(...)\<close> rendering, or a thrown value for which \<^verbatim>\<open>String(...)\<close> itself throws
  a \<^verbatim>\<open>TypeError\<close> (an object without a usable \<^verbatim>\<open>toString\<close>).
\<close>

datatype thrown = ErrorObj string | NonError string | Unprintable

text \<open>
  Measured values and thresholds are \<^verbatim>\<open>unknown\<close> in the source. Only \<^verbatim>\<open>null\<close> and
  \<^verbatim>\<open>undefined\<close> are told apart here; the other values are a type parameter, and the
  JavaScript operations on them that the alert checks use are parameters as well:
  \<^verbatim>\<open>a > b\<close>, \<^verbatim>\<open>a < b\<close> and \<^verbatim>\<open>String(a)\<close>, which may throw on a value that cannot be
  converted; \<^verbatim>\<open>a === b\<close>; \<^verbatim>\<open>new RegExp(p)\<close>, which throws a \<^verbatim>\<open>SyntaxError\<close> on an invalid
  pattern and otherwise gives the \<^verbatim>\<open>test\<close> of the pattern; and the value that reading a member of \<^verbatim>\<open>Object.prototype\<close> through an
  object gives (a function, or for \<^verbatim>\<open>__proto__\<close> the prototype itself: never \<^verbatim>\<open>null\<close> or
  \<^verbatim>\<open>undefined\<close>). \<^verbatim>\<open>s.includes(t)\<close> on strings is \<open>sublist t s\<close>.
\<close>

datatype 'v jsval = JUndefined | JNull | JVal 'v

record 'v js =
  js_gt :: "'v jsval \<Rightarrow> 'v jsval \<Rightarrow> thrown + bool"
  js_lt :: "'v jsval \<Rightarrow> 'v jsval \<Rightarrow> thrown + bool"
  js_strict_eq :: "'v jsval \<Rightarrow> 'v jsval \<Rightarrow> bool"
  js_String :: "'v jsval \<Rightarrow> thrown + string"
  js_RegExp :: "string \<Rightarrow> thrown + (string \<Rightarrow> bool)"
  js_builtin :: "string \<Rightarrow> 'v"

datatype Operator = Op_gt | Op_lt | Op_eq | Op_neq | Op_contains | Op_regex

datatype AlertSeverity = alert_warn | alert_critical

datatype Severity = trace | info | warn | critical

record 'v AlertCondition =
  field :: string
  operator :: Operator
  threshold :: "'v jsval"
  ac_severity :: AlertSeverity
  ac_message :: string

record 'v InstrumentBlueprint =
  objective :: string
  bp_kind :: InstrumentKind
  bp_phase :: InstrumentPhase
  bp_actionFilter :: "string list option"
  dataPoints :: "string list"
  alertConditions :: "'v AlertCondition list option"

record ProbeContext =
  ctx_sessionId :: string
  ctx_taskId :: string
  ctx_action_type :: "string option"

record 'v ProbeResult =
  instrumentId :: string
  pr_timestamp :: int
  data :: "'v jsval js_object"
  severity :: Severity
  tags :: "(string \<times> string) list"

text \<open>
  \<^verbatim>\<open>data[condition.field]\<close>: the own property, else the inherited member of that name,
  else \<^verbatim>\<open>undefined\<close>.
\<close>

definition js_get :: "'v js \<Rightarrow> 'v jsval js_object \<Rightarrow> string \<Rightarrow> 'v jsval" where
  "js_get js obj k =
     (case own obj k of
        Some v \<Rightarrow> v
      | None \<Rightarrow>
          if inherits obj \<and> k \<in> set Object_prototype_members then JVal (js_builtin js k)
          else JUndefined)"

text \<open>The \<^verbatim>\<open>switch (condition.operator)\<close> of \<^verbatim>\<open>buildAlertCheck\<close>.\<close>

fun triggered :: "'v js \<Rightarrow> Operator \<Rightarrow> 'v jsval \<Rightarrow> 'v jsval \<Rightarrow> thrown + bool" where
  "triggered js Op_gt v th = js_gt js v th"
| "triggered js Op_lt v th = js_lt js v th"
| "triggered js Op_eq v th = Inr (js_strict_eq js v th)"
| "triggered js Op_neq v th = Inr (\<not> js_strict_eq js v th)"
| "triggered js Op_contains v th =
     (case js_String js v of
        Inl e \<Rightarrow> Inl e
      | Inr s \<Rightarrow> (case js_String js th of Inl e \<Rightarrow> Inl e | Inr t \<Rightarrow> Inr (sublist t s)))"
| "triggered js Op_regex v th =
     (case js_String js th of
        Inl e \<Rightarrow> Inl e
      | Inr p \<Rightarrow>
          (case js_RegExp js p of
             Inl e \<Rightarrow> Inl e
           | Inr re \<Rightarrow> (case js_String js v of Inl e \<Rightarrow> Inl e | Inr s \<Rightarrow> Inr (re s))))"

definition buildAlertCheck ::
  "'v js \<Rightarrow> 'v AlertCondition \<Rightarrow> 'v jsval js_object \<Rightarrow> thrown + AlertSeverity option" where
  "buildAlertCheck js condition d =
     (let v = js_get js d (field condition)
      in if v = JNull \<or> v = JUndefined then Inr None
         else (case triggered js (operator condition) v (threshold condition) of
                 Inl e \<Rightarrow> Inl e
               | Inr t \<Rightarrow> Inr (if t then Some (ac_severity condition) else None)))"

text \<open>
  The loop of \<^verbatim>\<open>measure\<close> over \<^verbatim>\<open>alertChecks\<close>, from \<^verbatim>\<open>severity = "trace"\<close>, with its
  \<^verbatim>\<open>break\<close> at the first critical alert. A check that throws ends \<^verbatim>\<open>measure\<close>.
\<close>

fun evaluate_alerts ::
  "('d \<Rightarrow> thrown + AlertSeverity option) list \<Rightarrow> 'd \<Rightarrow> Severity \<Rightarrow> thrown + Severity" where
  "evaluate_alerts [] d sev = Inr sev"
| "evaluate_alerts (check # rest) d sev =
     (case check d of
        Inl e \<Rightarrow> Inl e
      | Inr alertSeverity \<Rightarrow>
          if alertSeverity = Some alert_critical then Inr critical
          else if alertSeverity = Some alert_warn \<and> sev \<noteq> critical
          then evaluate_alerts rest d warn
          else evaluate_alerts rest d sev)"

fun kind_name :: "InstrumentKind \<Rightarrow> string" where
  "kind_name timing = ''timing''"
| "kind_name network = ''network''"
| "kind_name state_kind = ''state''"
| "kind_name behavioral = ''behavioral''"
| "kind_name detection = ''detection''"
| "kind_name composite = ''composite''"

fun phase_name :: "InstrumentPhase \<Rightarrow> string" where
  "phase_name before_action = ''before_action''"
| "phase_name after_action = ''after_action''"
| "phase_name during_idle = ''during_idle''"
| "phase_name on_navigation = ''on_navigation''"
| "phase_name on_error = ''on_error''"
| "phase_name continuous = ''continuous''"

text \<open>
  \<^verbatim>\<open>measure\<close> of the probe that \<^verbatim>\<open>buildProbe\<close> returns, from the point where the collectors
  have filled \<open>data\<close>. The collectors read the browser; what they leave is the parameter
  \<open>d\<close>: an object that began as \<^verbatim>\<open>{}\<close> and received their results through
  \<^verbatim>\<open>Object.assign\<close>, which writes own properties (and, for a result with the key
  \<^verbatim>\<open>__proto__\<close>, reaches the setter). With no data points \<open>d\<close> is \<open>empty_object\<close>.
\<close>

definition measure_probe ::
  "'v js \<Rightarrow> string \<Rightarrow> 'v InstrumentBlueprint \<Rightarrow> int \<Rightarrow> ProbeContext \<Rightarrow> 'v jsval js_object
    \<Rightarrow> thrown + 'v ProbeResult" where
  "measure_probe js i blueprint now ctx d =
     (let alertChecks = map (buildAlertCheck js)
                          (case alertConditions blueprint of None \<Rightarrow> [] | Some acs \<Rightarrow> acs)
      in case evaluate_alerts alertChecks d trace of
           Inl e \<Rightarrow> Inl e
         | Inr sev \<Rightarrow>
             Inr \<lparr>instrumentId = i, pr_timestamp = now, data = d, severity = sev,
                  tags = [(''kind'', kind_name (bp_kind blueprint)),
                          (''phase'', phase_name (bp_phase blueprint)),
                          (''sessionId'', ctx_sessionId ctx), (''taskId'', ctx_taskId ctx)]
                         @ (case ctx_action_type ctx of None \<Rightarrow> []
                            | Some t \<Rightarrow> [(''actionType'', t)])\<rparr>)"

text \<open>
  Example values: values that are integers or built-in functions (told apart by name),
  the operations read on them, a pattern language with a single valid pattern, a blueprint
  with three alert conditions, and a blueprint whose only condition is on the field
  \<^verbatim>\<open>constructor\<close>.
\<close>

datatype example_value = Num int | Builtin string

definition example_js :: "example_value js" where
  "example_js =
     \<lparr>js_gt = (\<lambda>a b. case (a, b) of (JVal (Num x), JVal (Num y)) \<Rightarrow> Inr (x > y) | _ \<Rightarrow> Inr False),
      js_lt = (\<lambda>a b. case (a, b) of (JVal (Num x), JVal (Num y)) \<Rightarrow> Inr (x < y) | _ \<Rightarrow> Inr False),
      js_strict_eq = (\<lambda>a b. a = b),
      js_String = (\<lambda>a. case a of JUndefined \<Rightarrow> Inr ''undefined'' | JNull \<Rightarrow> Inr ''null''
                        | JVal (Num x) \<Rightarrow> Inr (if x = 0 then ''0'' else ''n'')
                        | JVal (Builtin f) \<Rightarrow> Inr (''function '' @ f)),
      js_RegExp = (\<lambda>p. if p = ''n'' then Inr (\<lambda>s. s = ''n'')
                         else Inl (ErrorObj ''Invalid regular expression'')),
      js_builtin = Builtin\<rparr>"

definition example_blueprint :: "example_value InstrumentBlueprint" where
  "example_blueprint =
     \<lparr>objective = ''latency'', bp_kind = timing, bp_phase = after_action,
      bp_actionFilter = None, dataPoints = [''action_duration_ms''],
      alertConditions = Some
        [\<lparr>field = ''action_duration_ms'', operator = Op_gt, threshold = JVal (Num 100),
          ac_severity = alert_warn, ac_message = ''slow''\<rparr>,
         \<lparr>field = ''action_duration_ms'', operator = Op_gt, threshold = JVal (Num 1000),
          ac_severity = alert_critical, ac_message = ''very slow''\<rparr>,
         \<lparr>field = ''console_errors'', operator = Op_gt, threshold = JVal (Num 0),
          ac_severity = alert_critical, ac_message = ''errors''\<rparr>]\<rparr>"

definition example_constructor_blueprint :: "example_value InstrumentBlueprint" where
  "example_constructor_blueprint =
     \<lparr>objective = ''none'', bp_kind = composite, bp_phase = after_action,
      bp_actionFilter = None, dataPoints = [],
      alertConditions = Some
        [\<lparr>field = ''constructor'', operator = Op_neq, threshold = JVal (Num 0),
          ac_severity = alert_critical, ac_message = ''never''\<rparr>]\<rparr>"

definition example_ctx :: ProbeContext where
  "example_ctx = \<lparr>ctx_sessionId = ''s1'', ctx_taskId = ''t1'', ctx_action_type = Some ''click''\<rparr>"

subsection \<open>Step executor\<close>

text \<open>
  The page handle is \<^verbatim>\<open>unknown\<close> to the executor, which calls four of its methods. Each is
  modelled by its outcome: a promise that resolves (to nothing, or to a value) or rejects
  with a thrown value. \<^verbatim>\<open>page.$\<close> resolves to an element handle or to \<^verbatim>\<open>null\<close>;
  \<^verbatim>\<open>el.evaluate(f, attr)\<close> rejects, or runs \<open>f\<close> on the DOM node it finds, with \<open>attr\<close>.
\<close>

record dom_node =
  getAttribute :: "string \<Rightarrow> string option"
  textContent :: "string option"

record ElementHandle =
  evaluate_on :: "string \<Rightarrow> thrown + dom_node"

record Page =
  goto :: "string \<Rightarrow> thrown option"
  waitForSelector :: "string \<Rightarrow> int \<Rightarrow> thrown option"
  click :: "string \<Rightarrow> thrown option"
  query_selector :: "string \<Rightarrow> thrown + ElementHandle option"

record ExecutionContext =
  page :: Page
  ec_sessionId :: string

record StepResult =
  step :: Step
  success :: bool
  durationMs :: int
  sr_data :: "string option js_object option"
  sr_error :: "string option"

text \<open>\<^verbatim>\<open>(node, attr) => node.getAttribute(attr) ?? node.textContent\<close>\<close>

definition attribute_or_text :: "dom_node \<Rightarrow> string \<Rightarrow> string option" where
  "attribute_or_text node attr =
     (case getAttribute node attr of Some v \<Rightarrow> Some v | None \<Rightarrow> textContent node)"

text \<open>
  The assignment \<^verbatim>\<open>result[k] = v\<close> on the plain object \<open>result\<close>, where \<open>v\<close> is a string or
  \<^verbatim>\<open>null\<close>. It writes an own property, except for the key \<^verbatim>\<open>__proto__\<close> while the object
  still inherits that accessor and has no own property of the name: then the setter runs,
  which ignores a string and, given \<^verbatim>\<open>null\<close>, removes the prototype; no own property is
  written.
\<close>

definition result_set ::
  "string option js_object \<Rightarrow> string \<Rightarrow> string option \<Rightarrow> string option js_object" where
  "result_set obj k v =
     (if k = ''__proto__'' \<and> inherits obj \<and> own obj k = None
      then (case v of None \<Rightarrow> obj\<lparr>inherits := False\<rparr> | Some s \<Rightarrow> obj)
      else obj\<lparr>own := (own obj)(k \<mapsto> v)\<rparr>)"

text \<open>The \<^verbatim>\<open>for (const field of step.schema.fields)\<close> loop, writing \<^verbatim>\<open>result[field.name]\<close>.\<close>

fun extract_fields ::
  "ElementHandle \<Rightarrow> Field list \<Rightarrow> string option js_object
    \<Rightarrow> thrown + string option js_object" where
  "extract_fields el [] result = Inr result"
| "extract_fields el (f # fs) result =
     (case evaluate_on el (field_name f) of
        Inl e \<Rightarrow> Inl e
      | Inr node \<Rightarrow>
          extract_fields el fs
            (result_set result (field_name f) (attribute_or_text node (field_name f))))"

definition extract_step :: "string \<Rightarrow> Field list \<Rightarrow> Page \<Rightarrow> thrown + string option js_object" where
  "extract_step sel fs pg =
     (case query_selector pg sel of
        Inl e \<Rightarrow> Inl e
      | Inr None \<Rightarrow> Inl (ErrorObj (''Element not found: '' @ sel))
      | Inr (Some el) \<Rightarrow> extract_fields el fs empty_object)"

fun dispatch :: "Step \<Rightarrow> ExecutionContext \<Rightarrow> thrown + string option js_object option" where
  "dispatch (Navigate u) ctx =
     (case goto (page ctx) u of Some e \<Rightarrow> Inl e | None \<Rightarrow> Inr None)"
| "dispatch (WaitFor sel t) ctx =
     (case waitForSelector (page ctx) sel t of Some e \<Rightarrow> Inl e | None \<Rightarrow> Inr None)"
| "dispatch (Click sel) ctx =
     (case click (page ctx) sel of Some e \<Rightarrow> Inl e | None \<Rightarrow> Inr None)"
| "dispatch (Extract sel fs) ctx =
     (case extract_step sel fs (page ctx) of Inl e \<Rightarrow> Inl e | Inr result \<Rightarrow> Inr (Some result))"

text \<open>
  \<^verbatim>\<open>err instanceof Error ? err.message : String(err)\<close>, inside the \<^verbatim>\<open>catch\<close> clause: there
  is no message when \<^verbatim>\<open>String(err)\<close> itself throws.
\<close>

fun thrown_message :: "thrown \<Rightarrow> string option" where
  "thrown_message (ErrorObj m) = Some m"
| "thrown_message (NonError s) = Some s"
| "thrown_message Unprintable = None"

text \<open>
  \<open>execute\<close>, with the two readings of the clock: at entry and when the result is built.
  What is thrown inside the \<^verbatim>\<open>catch\<close> clause leaves \<open>execute\<close>.
\<close>

definition execute :: "int \<Rightarrow> int \<Rightarrow> Step \<Rightarrow> ExecutionContext \<Rightarrow> error + StepResult" where
  "execute start_time end_time st ctx =
     (case dispatch st ctx of
        Inr d \<Rightarrow>
          Inr \<lparr>step = st, success = True, durationMs = end_time - start_time,
               sr_data = d, sr_error = None\<rparr>
      | Inl err \<Rightarrow>
          (case thrown_message err of
             None \<Rightarrow> Inl TypeError
           | Some m \<Rightarrow>
               Inr \<lparr>step = st, success = False, durationMs = end_time - start_time,
                    sr_data = None, sr_error = Some m\<rparr>))"


definition example_node :: dom_node where
  "example_node =
     \<lparr>getAttribute = (\<lambda>a. if a = ''href'' then Some ''/home'' else None),
      textContent = Some ''Home''\<rparr>"

definition example_page :: Page where
  "example_page =
     \<lparr>goto = (\<lambda>u. None), waitForSelector = (\<lambda>s t. None), click = (\<lambda>s. None),
      query_selector = (\<lambda>s. if s = ''a.nav'' then Inr (Some \<lparr>evaluate_on = (\<lambda>a. Inr example_node)\<rparr>)
                            else Inr None)\<rparr>"


section \<open>Properties\<close>

subsection \<open>Routing of \<^verbatim>\<open>workflow.*\<close> events\<close>

text \<open>
  C5 (as stated, refuted): an event type beginning with \<^verbatim>\<open>workflow.\<close> would be routed to
  the \<^verbatim>\<open>tasks\<close> topic. The routing has no case for that prefix: at \<^verbatim>\<open>workflow.started\<close>
  it falls through to the default, \<^verbatim>\<open>measurements\<close>.
\<close>

theorem workflow_started_not_tasks:
  "eventTypeToTopic ''workflow.started'' = MEASUREMENTS
   \<and> eventTypeToTopic ''workflow.started'' \<noteq> TASKS"
  by (simp add: eventTypeToTopic_def)

text \<open>
  C5 (amended): every event type that begins with \<^verbatim>\<open>workflow.\<close> is routed to the default
  topic \<^verbatim>\<open>measurements\<close> (before the topic prefix is applied).
\<close>

theorem workflow_prefix_routes_to_measurements:
  assumes "prefix ''workflow.'' eventType"
  shows "eventTypeToTopic eventType = MEASUREMENTS"
proof -
  from assms obtain rest where "eventType = ''workflow.'' @ rest"
    by (auto simp: prefix_def)
  then show ?thesis
    by (simp add: eventTypeToTopic_def)
qed

theorem workflow_prefix_routes_to_measurements_witness:
  "prefix ''workflow.'' ''workflow.finished''
   \<and> eventTypeToTopic ''workflow.finished'' = MEASUREMENTS"
  using workflow_prefix_routes_to_measurements [of "''workflow.finished''"]
  by simp

subsection \<open>Reconciler: failing a running task\<close>

text \<open>
  C3: for a registered task in state \<open>Running\<close>, \<open>fail\<close> returns (it does not throw) and
  records the error as \<open>lastError\<close>; when the retry count before the call is below the task's
  \<open>retry.maxRetries\<close> the task becomes \<open>Retrying\<close> and the count grows by exactly one,
  otherwise the task becomes \<open>Escalated\<close> and the count is unchanged.
\<close>

theorem fail_running:
  assumes "statuses n = Some status" and "state status = Running"
  shows "\<exists>res statuses' status'.
           fail now statuses n task err = Inr (res, statuses')
         \<and> statuses' n = Some status'
         \<and> lastError status' = Some err
         \<and> (if retryCount status < maxRetries (retry task)
            then state status' = Retrying \<and> current res = Retrying
               \<and> retryCount status' = retryCount status + 1
            else state status' = Escalated \<and> current res = Escalated
               \<and> retryCount status' = retryCount status)"
  using assms by (simp add: fail_def requireStatus_def)

theorem fail_running_witness:
  "[''a'' \<mapsto> \<lparr>state = Running, retryCount = 2, lastError = None, updatedAt = 5\<rparr>] ''a''
     = Some \<lparr>state = Running, retryCount = 2, lastError = None, updatedAt = 5\<rparr>
   \<and> state \<lparr>state = Running, retryCount = 2, lastError = None, updatedAt = 5\<rparr> = Running
   \<and> (\<exists>res statuses' status'.
         fail 9 [''a'' \<mapsto> \<lparr>state = Running, retryCount = 2, lastError = None, updatedAt = 5\<rparr>]
           ''a''
           \<lparr>name = ''a'', dependsOn = [], steps = [],
            retry = \<lparr>maxRetries = 2, backoffMs = 10\<rparr>,
            task_output = \<lparr>storeAs = ''out'', format = ''json''\<rparr>\<rparr>
           ''boom'' = Inr (res, statuses')
       \<and> statuses' ''a'' = Some status'
       \<and> lastError status' = Some ''boom''
       \<and> state status' = Escalated \<and> current res = Escalated \<and> retryCount status' = 2)"
  using fail_running
    [of "[''a'' \<mapsto> \<lparr>state = Running, retryCount = 2, lastError = None, updatedAt = 5\<rparr>]"
        "''a''" "\<lparr>state = Running, retryCount = 2, lastError = None, updatedAt = 5\<rparr>" 9
        "\<lparr>name = ''a'', dependsOn = [], steps = [],
          retry = \<lparr>maxRetries = 2, backoffMs = 10\<rparr>,
          task_output = \<lparr>storeAs = ''out'', format = ''json''\<rparr>\<rparr>" "''boom''"]
  by simp

subsection \<open>Reconciler: the retry count stays within the limit\<close>

lemma after_calls_snoc: "after_calls (cs @ [c]) = after_call (after_calls cs) c"
  by (simp add: after_calls_def)

lemma after_call_within:
  assumes "0 \<le> m" and "fails_with n m (snd c)" and "within m (statuses n)"
  shows "within m (after_call statuses c n)"
  using assms
  by (cases c; cases "snd c")
     (auto simp: within_def after_call_def register_def schedule_def start_def succeed_def
        retry_task_def fail_def transition_def requireStatus_def initialStatus_def
        split: option.splits if_splits sum.splits)

lemma after_calls_within:
  assumes "0 \<le> m" and "\<forall>c \<in> set cs. fails_with n m (snd c)"
  shows "within m (after_calls cs n)"
  using assms(2)
proof (induction cs rule: rev_induct)
  case Nil
  then show ?case by (simp add: after_calls_def within_def)
next
  case (snoc c cs)
  then show ?case by (simp add: after_calls_snoc after_call_within [OF assms(1)])
qed

lemma enter_Retrying:
  assumes "fails_with n m (snd c)"
      and "after_call statuses c n = Some s'" and "state s' = Retrying"
      and "\<forall>s. statuses n = Some s \<longrightarrow> state s \<noteq> Retrying"
  shows "\<exists>s task err. snd c = Fail n task err \<and> statuses n = Some s \<and> state s = Running
           \<and> retryCount s < m"
  using assms
  by (cases c; cases "snd c")
     (auto simp: after_call_def register_def schedule_def start_def succeed_def
        retry_task_def fail_def transition_def requireStatus_def initialStatus_def
        split: option.splits if_splits sum.splits)

text \<open>
  C4: take any history of calls (register, schedule, start, succeed, fail, retry, on any
  task names, throwing or not) on a new reconciler, in which every \<open>fail\<close> call for the task
  named \<open>n\<close> passes a task definition with the same \<open>retry.maxRetries = m\<close>, \<open>m \<ge> 0\<close>. Then
  after every prefix of the history the retry count of \<open>n\<close> is at most \<open>m\<close>, and whenever a
  call takes \<open>n\<close> into \<open>Retrying\<close> (from another state, or from not being registered) that
  call is a \<open>fail\<close> for \<open>n\<close> made in state \<open>Running\<close> with a retry count strictly below \<open>m\<close>.
\<close>

theorem retryCount_within_maxRetries:
  assumes "0 \<le> m" and "\<forall>c \<in> set cs. fails_with n m (snd c)"
  shows "(\<forall>pre post s. cs = pre @ post \<and> after_calls pre n = Some s \<longrightarrow> retryCount s \<le> m)
       \<and> (\<forall>pre c post s'.
             cs = pre @ c # post \<and> after_calls (pre @ [c]) n = Some s' \<and> state s' = Retrying
             \<and> (\<forall>s. after_calls pre n = Some s \<longrightarrow> state s \<noteq> Retrying)
             \<longrightarrow> (\<exists>s task err. snd c = Fail n task err \<and> after_calls pre n = Some s
                    \<and> state s = Running \<and> retryCount s < m))"
proof (intro conjI allI impI)
  fix pre post s
  assume h: "cs = pre @ post \<and> after_calls pre n = Some s"
  with assms(2) have "\<forall>c \<in> set pre. fails_with n m (snd c)" by simp
  from after_calls_within [OF assms(1) this] h show "retryCount s \<le> m"
    by (simp add: within_def)
next
  fix pre c post s'
  assume h: "cs = pre @ c # post \<and> after_calls (pre @ [c]) n = Some s' \<and> state s' = Retrying
             \<and> (\<forall>s. after_calls pre n = Some s \<longrightarrow> state s \<noteq> Retrying)"
  with assms(2) have "fails_with n m (snd c)" by simp
  from enter_Retrying [OF this, of "after_calls pre" s'] h
  show "\<exists>s task err. snd c = Fail n task err \<and> after_calls pre n = Some s
          \<and> state s = Running \<and> retryCount s < m"
    by (simp add: after_calls_snoc)
qed

theorem retryCount_within_maxRetries_witness:
  "(0::int) \<le> 1
   \<and> list_all (\<lambda>c. fails_with ''a'' 1 (snd c))
        [(0, Register (example_task ''a'' [] 1)), (1, Schedule ''a''), (2, Start ''a''),
         (3, Fail ''a'' (example_task ''a'' [] 1) ''e1''), (4, Retry ''a''),
         (5, Fail ''a'' (example_task ''a'' [] 1) ''e2'')]
   \<and> after_calls [(0, Register (example_task ''a'' [] 1)), (1, Schedule ''a''), (2, Start ''a''),
                   (3, Fail ''a'' (example_task ''a'' [] 1) ''e1'')] ''a''
       = Some \<lparr>state = Retrying, retryCount = 1, lastError = Some ''e1'', updatedAt = 3\<rparr>
   \<and> retryCount \<lparr>state = Retrying, retryCount = 1, lastError = Some ''e1'', updatedAt = 3\<rparr> \<le> 1"
proof -
  let ?t = "example_task ''a'' [] 1"
  let ?pre = "[(0, Register ?t), (1, Schedule ''a''), (2, Start ''a''), (3, Fail ''a'' ?t ''e1'')]"
  let ?post = "[(4, Retry ''a''), (5, Fail ''a'' ?t ''e2'')]"
  have h1: "(0::int) \<le> 1" by simp
  have h2: "\<forall>c \<in> set (?pre @ ?post). fails_with ''a'' 1 (snd c)"
    by (simp add: example_task_def)
  have e: "after_calls ?pre ''a''
       = Some \<lparr>state = Retrying, retryCount = 1, lastError = Some ''e1'', updatedAt = 3\<rparr>"
    by (simp add: after_calls_def after_call_def register_def schedule_def start_def
          fail_def transition_def requireStatus_def initialStatus_def example_task_def)
  from retryCount_within_maxRetries [OF h1 h2, THEN conjunct1, rule_format, of ?pre ?post] e
  have "retryCount \<lparr>state = Retrying, retryCount = 1, lastError = Some ''e1'', updatedAt = 3\<rparr> \<le> 1"
    by simp
  with h1 h2 e show ?thesis by simp
qed

subsection \<open>Reconciler: unknown tasks\<close>

lemma after_call_absent:
  "\<not> registers n (snd c) \<Longrightarrow> statuses n = None \<Longrightarrow> after_call statuses c n = None"
  by (cases c; cases "snd c")
     (auto simp: after_call_def register_def schedule_def start_def succeed_def retry_task_def
        fail_def transition_def requireStatus_def split: option.splits if_splits sum.splits)

lemma never_registered_absent:
  "\<forall>c \<in> set cs. \<not> registers n (snd c) \<Longrightarrow> after_calls cs n = None"
proof (induction cs rule: rev_induct)
  case Nil
  then show ?case by (simp add: after_calls_def)
next
  case (snoc c cs)
  then show ?case by (simp add: after_calls_snoc after_call_absent)
qed

text \<open>
  C9 (as stated, refuted): querying a task that was never registered would fail with
  \<open>UnknownTask\<close>. On a new reconciler the two queries return normally: \<open>getStatus\<close> yields
  \<^verbatim>\<open>undefined\<close> and \<open>isTerminal\<close> yields \<^verbatim>\<open>false\<close>.
\<close>

theorem query_unknown_task_returns:
  "getStatus (after_calls []) ''ghost'' = Inr None
   \<and> isTerminal (after_calls []) ''ghost'' = Inr False
   \<and> getStatus (after_calls []) ''ghost'' \<noteq> Inl (UnknownTask ''ghost'')
   \<and> isTerminal (after_calls []) ''ghost'' \<noteq> Inl (UnknownTask ''ghost'')"
  by (simp add: getStatus_def isTerminal_def after_calls_def)

text \<open>
  C9 (amended): for a task name that was never registered, every transition call
  (schedule, start, succeed, fail, retry) fails with \<open>UnknownTask\<close>, raised by
  \<open>requireStatus\<close>; the queries \<open>getStatus\<close> and \<open>isTerminal\<close> do not fail, they return
  \<^verbatim>\<open>undefined\<close> and \<^verbatim>\<open>false\<close>.
\<close>

theorem unknown_task_transitions_fail:
  assumes "\<forall>c \<in> set cs. \<not> registers n (snd c)"
  shows "requireStatus (after_calls cs) n = Inl (UnknownTask n)
       \<and> schedule now (after_calls cs) n = Inl (UnknownTask n)
       \<and> start now (after_calls cs) n = Inl (UnknownTask n)
       \<and> succeed now (after_calls cs) n = Inl (UnknownTask n)
       \<and> fail now (after_calls cs) n task err = Inl (UnknownTask n)
       \<and> retry_task now (after_calls cs) n = Inl (UnknownTask n)
       \<and> getStatus (after_calls cs) n = Inr None
       \<and> isTerminal (after_calls cs) n = Inr False"
  using never_registered_absent [OF assms]
  by (simp add: requireStatus_def schedule_def start_def succeed_def fail_def retry_task_def
        transition_def getStatus_def isTerminal_def)

theorem unknown_task_transitions_fail_witness:
  "list_all (\<lambda>c. \<not> registers ''a'' (snd c))
     [(0, Register (example_task ''b'' [] 1)), (1, Schedule ''b'')]
   \<and> schedule 2 (after_calls [(0, Register (example_task ''b'' [] 1)), (1, Schedule ''b'')]) ''a''
       = Inl (UnknownTask ''a'')
   \<and> fail 2 (after_calls [(0, Register (example_task ''b'' [] 1)), (1, Schedule ''b'')]) ''a''
        (example_task ''a'' [] 1) ''boom'' = Inl (UnknownTask ''a'')
   \<and> getStatus (after_calls [(0, Register (example_task ''b'' [] 1)), (1, Schedule ''b'')]) ''a''
       = Inr None"
proof -
  have h: "\<forall>c \<in> set [(0, Register (example_task ''b'' [] 1)), (1, Schedule ''b'')].
             \<not> registers ''a'' (snd c)"
    by (simp add: example_task_def)
  from unknown_task_transitions_fail [OF h, of 2 "example_task ''a'' [] 1" "''boom''"] h
  show ?thesis by simp
qed

subsection \<open>Instrument registry: instruments for a phase\<close>

lemma collect_filter:
  "collect ph a xs =
     filter (\<lambda>i. enabled i \<and> (phase i = ph \<or> phase i = continuous)
                \<and> \<not> (actionFilter i \<noteq> []
                      \<and> (\<exists>s. a = Some s \<and> s \<noteq> [] \<and> s \<notin> set (actionFilter i)))) xs"
  by (induction xs) (auto simp: truthy_def array_includes_def split: option.splits)

text \<open>
  C10: \<open>getForPhase p a\<close> returns, sorted by ascending priority, exactly the registered
  instruments (with their multiplicity) that are enabled, whose phase is \<open>p\<close> or
  \<open>continuous\<close>, and that their action filter does not exclude. A filter excludes its
  instrument only if it is non-empty and an action type \<open>a\<close> is supplied that is not in it
  (precisely: \<open>a\<close> is a non-empty string outside the non-empty filter). When \<open>a\<close> is
  \<^verbatim>\<open>undefined\<close> no filter excludes anything: instruments with a non-empty filter are included.
\<close>

theorem getForPhase_spec:
  "mset (getForPhase instruments ph a) =
     filter_mset (\<lambda>i. enabled i \<and> (phase i = ph \<or> phase i = continuous)
                \<and> \<not> (actionFilter i \<noteq> []
                      \<and> (\<exists>s. a = Some s \<and> s \<noteq> [] \<and> s \<notin> set (actionFilter i))))
       (mset (map_values instruments))
   \<and> sorted (map priority (getForPhase instruments ph a))
   \<and> (\<forall>i. i \<in> set (map_values instruments) \<and> i \<notin> set (getForPhase instruments ph a)
            \<and> enabled i \<and> (phase i = ph \<or> phase i = continuous)
        \<longrightarrow> actionFilter i \<noteq> [] \<and> (\<exists>s. a = Some s \<and> s \<notin> set (actionFilter i)))
   \<and> set (getForPhase instruments ph None) =
        {i \<in> set (map_values instruments). enabled i \<and> (phase i = ph \<or> phase i = continuous)}"
  by (auto simp: getForPhase_def collect_filter)

theorem getForPhase_spec_witness:
  "example_instrument ''x'' after_action [''click''] True 50 \<in> set (map_values example_registry)
   \<and> example_instrument ''x'' after_action [''click''] True 50
        \<notin> set (getForPhase example_registry after_action (Some ''scroll''))
   \<and> enabled (example_instrument ''x'' after_action [''click''] True 50)
   \<and> phase (example_instrument ''x'' after_action [''click''] True 50) = after_action
   \<and> actionFilter (example_instrument ''x'' after_action [''click''] True 50) \<noteq> []
   \<and> (\<exists>s. Some ''scroll'' = Some s
          \<and> s \<notin> set (actionFilter (example_instrument ''x'' after_action [''click''] True 50)))
   \<and> map instr_id (getForPhase example_registry after_action (Some ''scroll'')) = [''y'']
   \<and> map instr_id (getForPhase example_registry after_action None) = [''y'', ''x'']
   \<and> sorted (map priority (getForPhase example_registry after_action None))"
proof -
  let ?x = "example_instrument ''x'' after_action [''click''] True 50"
  have e1: "map instr_id (getForPhase example_registry after_action (Some ''scroll'')) = [''y'']"
    by (simp add: getForPhase_def example_registry_def example_instrument_def map_values_def
          truthy_def array_includes_def)
  have e2: "map instr_id (getForPhase example_registry after_action None) = [''y'', ''x'']"
    by (simp add: getForPhase_def example_registry_def example_instrument_def map_values_def
          truthy_def array_includes_def)
  have h1: "?x \<in> set (map_values example_registry)"
    by (simp add: example_registry_def map_values_def)
  have h2: "?x \<notin> set (getForPhase example_registry after_action (Some ''scroll''))"
  proof
    assume "?x \<in> set (getForPhase example_registry after_action (Some ''scroll''))"
    then have "instr_id ?x \<in> set (map instr_id
                 (getForPhase example_registry after_action (Some ''scroll'')))"
      by simp
    then show False by (simp add: e1 example_instrument_def)
  qed
  have h3: "enabled ?x" and h4: "phase ?x = after_action"
    by (simp_all add: example_instrument_def)
  note spec = getForPhase_spec [of example_registry after_action "Some ''scroll''"]
  from spec h1 h2 h3 h4
  have c: "actionFilter ?x \<noteq> [] \<and> (\<exists>s. Some ''scroll'' = Some s \<and> s \<notin> set (actionFilter ?x))"
    by blast
  from getForPhase_spec [of example_registry after_action None]
  have s: "sorted (map priority (getForPhase example_registry after_action None))"
    by blast
  from h1 h2 h3 h4 c e1 e2 s show ?thesis by blast
qed

subsection \<open>Event producer: a rejected batch\<close>

text \<open>
  Within the engine's bound on arguments the comment in the source holds: take any
  connected producer with a non-empty buffer of at most \<open>max_args\<close> messages, so that
  \<open>flush\<close> sends. The batch is the whole buffer and the buffer is left empty. If the
  transport rejects the batch then, whatever the buffer holds at that moment, \<open>flush\<close>
  throws the transport's error and the buffer becomes the messages of the batch, in their
  order, followed by what it held.
\<close>

lemma flush_rejected_requeues:
  assumes "connected p" and "buffer p \<noteq> []" and "length (buffer p) \<le> max_args"
  shows "(\<exists>groups p1. flush_begin p = (Sending (buffer p) groups, p1) \<and> buffer p1 = [])
       \<and> (\<forall>p2 err.
             fst (flush_end max_args (Rejected err) (buffer p) p2) = Inl (TransportError err)
           \<and> buffer (snd (flush_end max_args (Rejected err) (buffer p) p2)) = buffer p @ buffer p2)"
  using assms by (simp add: flush_begin_def flush_end_def)

lemma length_example_large_batch: "length example_large_batch = 200000"
  unfolding example_large_batch_def by (simp only: length_replicate)

text \<open>
  C6 (the code against the claim): every message of a rejected batch should return to the
  head of the buffer and the flush should report the transport's failure. For a connected
  producer whose buffer holds more messages than the engine accepts as arguments of one
  call, \<open>flush\<close> takes the whole buffer as its batch; when the transport rejects it, the
  spread call throws: \<open>flush\<close> fails with a \<^verbatim>\<open>RangeError\<close> in place of the transport's error,
  and the buffer is left as it was at that moment, without any message of the batch.
\<close>

theorem flush_rejected_large_batch_lost:
  assumes "connected p" and "max_args < length (buffer p)"
  shows "(\<exists>groups p1. flush_begin p = (Sending (buffer p) groups, p1) \<and> buffer p1 = [])
       \<and> (\<forall>p2 err.
             fst (flush_end max_args (Rejected err) (buffer p) p2) = Inl RangeError
           \<and> fst (flush_end max_args (Rejected err) (buffer p) p2) \<noteq> Inl (TransportError err)
           \<and> buffer (snd (flush_end max_args (Rejected err) (buffer p) p2)) = buffer p2)"
  using assms by (auto simp: flush_begin_def flush_end_def)

theorem flush_rejected_large_batch_lost_witness:
  "connected example_large_producer
   \<and> 125000 < length (buffer example_large_producer)
   \<and> fst (flush_end 125000 (Rejected ''broker down'') (buffer example_large_producer)
            (example_large_producer\<lparr>buffer := []\<rparr>)) = Inl RangeError
   \<and> buffer (snd (flush_end 125000 (Rejected ''broker down'') (buffer example_large_producer)
            (example_large_producer\<lparr>buffer := []\<rparr>))) = []"
proof -
  have h1: "connected example_large_producer" by (simp add: example_large_producer_def)
  have b: "buffer example_large_producer = example_large_batch"
    by (simp add: example_large_producer_def)
  have h2: "125000 < length (buffer example_large_producer)"
    unfolding b length_example_large_batch by simp
  from flush_rejected_large_batch_lost [OF h1 h2, THEN conjunct2, rule_format,
      of "''broker down''" "example_large_producer\<lparr>buffer := []\<rparr>"]
  have "fst (flush_end 125000 (Rejected ''broker down'') (buffer example_large_producer)
            (example_large_producer\<lparr>buffer := []\<rparr>)) = Inl RangeError"
    and "buffer (snd (flush_end 125000 (Rejected ''broker down'') (buffer example_large_producer)
            (example_large_producer\<lparr>buffer := []\<rparr>))) = buffer (example_large_producer\<lparr>buffer := []\<rparr>)"
    by blast+
  then show ?thesis using h1 h2 by simp
qed

subsection \<open>Instrument factory: severity of a probe result\<close>

lemma evaluate_alerts_result:
  assumes "evaluate_alerts (map f cs) d sev = Inr s" and "sev \<noteq> critical"
  shows "s = (if \<exists>c \<in> set cs. f c d = Inr (Some alert_critical) then critical
              else if \<exists>c \<in> set cs. f c d = Inr (Some alert_warn) then warn
              else sev)"
  using assms
proof (induction cs arbitrary: sev)
  case Nil
  then show ?case by simp
next
  case (Cons c cs)
  show ?case
  proof (cases "f c d")
    case (Inl e)
    with Cons.prems show ?thesis by simp
  next
    case (Inr a)
    show ?thesis
    proof (cases a)
      case None
      with Inr Cons.prems Cons.IH [of sev] show ?thesis by simp
    next
      case (Some x)
      show ?thesis
      proof (cases x)
        case alert_warn
        with Some Inr Cons.prems Cons.IH [of warn] show ?thesis by auto
      next
        case alert_critical
        with Some Inr Cons.prems show ?thesis by auto
      qed
    qed
  qed
qed

lemma evaluate_alerts_returns:
  assumes "\<forall>c \<in> set cs. \<forall>e. f c d \<noteq> Inl e"
  shows "\<exists>s. evaluate_alerts (map f cs) d sev = Inr s"
  using assms
proof (induction cs arbitrary: sev)
  case Nil
  then show ?case by simp
next
  case (Cons c cs)
  then obtain a where "f c d = Inr a" by (cases "f c d") auto
  with Cons show ?case by simp
qed

text \<open>
  What \<open>measure\<close> does in general, whatever the JavaScript operations compute. An alert
  condition yields no alert when reading its field gives \<^verbatim>\<open>null\<close> or \<^verbatim>\<open>undefined\<close>, which
  is so in particular when the field is not an own key of the data and does not name an
  inherited member; when the reading gives another value the condition yields its own
  severity if its comparison holds and nothing if not. The severity of the resulting
  \<open>ProbeResult\<close> is \<open>critical\<close> if some condition yields a critical alert, otherwise \<open>warn\<close>
  if some condition yields a warn alert, otherwise \<open>trace\<close>. A result exists whenever no
  check throws.
\<close>

lemma probe_severity:
  "(\<forall>c :: 'v AlertCondition. js_get js d (field c) = JNull \<or> js_get js d (field c) = JUndefined
        \<longrightarrow> buildAlertCheck js c d = Inr None)
   \<and> (\<forall>c :: 'v AlertCondition.
          own d (field c) = None \<and> (\<not> inherits d \<or> field c \<notin> set Object_prototype_members)
        \<longrightarrow> buildAlertCheck js c d = Inr None)
   \<and> (\<forall>(c :: 'v AlertCondition) v. js_get js d (field c) = JVal v
        \<longrightarrow> buildAlertCheck js c d =
              (case triggered js (operator c) (JVal v) (threshold c) of
                 Inl e \<Rightarrow> Inl e
               | Inr True \<Rightarrow> Inr (Some (ac_severity c))
               | Inr False \<Rightarrow> Inr None))
   \<and> (\<forall>r. measure_probe js i blueprint now ctx d = Inr r
        \<longrightarrow> severity r =
              (if \<exists>c \<in> set (case alertConditions blueprint of None \<Rightarrow> [] | Some acs \<Rightarrow> acs).
                    buildAlertCheck js c d = Inr (Some alert_critical) then critical
               else if \<exists>c \<in> set (case alertConditions blueprint of None \<Rightarrow> [] | Some acs \<Rightarrow> acs).
                    buildAlertCheck js c d = Inr (Some alert_warn) then warn
               else trace))
   \<and> ((\<forall>c \<in> set (case alertConditions blueprint of None \<Rightarrow> [] | Some acs \<Rightarrow> acs).
          \<forall>e. buildAlertCheck js c d \<noteq> Inl e)
        \<longrightarrow> (\<exists>r. measure_probe js i blueprint now ctx d = Inr r))"
proof (intro conjI allI impI)
  fix c :: "'v AlertCondition"
  assume "js_get js d (field c) = JNull \<or> js_get js d (field c) = JUndefined"
  then show "buildAlertCheck js c d = Inr None"
    by (auto simp: buildAlertCheck_def)
next
  fix c :: "'v AlertCondition"
  assume "own d (field c) = None \<and> (\<not> inherits d \<or> field c \<notin> set Object_prototype_members)"
  then have "js_get js d (field c) = JUndefined" by (auto simp: js_get_def)
  then show "buildAlertCheck js c d = Inr None"
    by (simp add: buildAlertCheck_def)
next
  fix c :: "'v AlertCondition" and v
  assume "js_get js d (field c) = JVal v"
  then show "buildAlertCheck js c d =
              (case triggered js (operator c) (JVal v) (threshold c) of
                 Inl e \<Rightarrow> Inl e
               | Inr True \<Rightarrow> Inr (Some (ac_severity c))
               | Inr False \<Rightarrow> Inr None)"
    by (simp add: buildAlertCheck_def split: sum.splits bool.splits)
next
  fix r
  let ?cs = "case alertConditions blueprint of None \<Rightarrow> [] | Some acs \<Rightarrow> acs"
  assume "measure_probe js i blueprint now ctx d = Inr r"
  then have "evaluate_alerts (map (buildAlertCheck js) ?cs) d trace = Inr (severity r)"
    by (auto simp: measure_probe_def Let_def split: sum.splits)
  from evaluate_alerts_result [where f = "buildAlertCheck js", OF this]
  show "severity r =
          (if \<exists>c \<in> set ?cs. buildAlertCheck js c d = Inr (Some alert_critical) then critical
           else if \<exists>c \<in> set ?cs. buildAlertCheck js c d = Inr (Some alert_warn) then warn
           else trace)"
    by simp
next
  let ?cs = "case alertConditions blueprint of None \<Rightarrow> [] | Some acs \<Rightarrow> acs"
  assume "\<forall>c \<in> set ?cs. \<forall>e. buildAlertCheck js c d \<noteq> Inl e"
  from evaluate_alerts_returns [where f = "buildAlertCheck js" and sev = trace, OF this]
  show "\<exists>r. measure_probe js i blueprint now ctx d = Inr r"
    by (auto simp: measure_probe_def Let_def)
qed

text \<open>
  C7 (the code against the claim): a condition whose field is absent from the measured
  data should contribute nothing to the severity. The data is a plain object, so reading
  a field that names a member of \<^verbatim>\<open>Object.prototype\<close> gives the inherited member although
  the data has no such key: a condition on such a field with the operator \<open>neq\<close>, a
  threshold the member is not strictly equal to and severity critical yields a critical
  alert, and the probe result of a blueprint with this one condition is \<open>critical\<close>, also
  on data without any key.
\<close>

theorem inherited_field_triggers_alert:
  assumes "own d (field c) = None" and "inherits d"
      and "field c \<in> set Object_prototype_members"
      and "operator c = Op_neq"
      and "\<not> js_strict_eq js (JVal (js_builtin js (field c))) (threshold c)"
      and "ac_severity c = alert_critical"
      and "alertConditions blueprint = Some [c]"
  shows "buildAlertCheck js c d = Inr (Some alert_critical)
       \<and> (\<exists>r. measure_probe js i blueprint now ctx d = Inr r \<and> severity r = critical)"
proof -
  from assms(1-3) have "js_get js d (field c) = JVal (js_builtin js (field c))"
    by (simp add: js_get_def)
  with assms(4-6) have b: "buildAlertCheck js c d = Inr (Some alert_critical)"
    by (simp add: buildAlertCheck_def)
  with assms(7) show ?thesis
    by (simp add: measure_probe_def)
qed

theorem inherited_field_triggers_alert_witness:
  "own (empty_object :: example_value jsval js_object) ''constructor'' = None
   \<and> inherits (empty_object :: example_value jsval js_object)
   \<and> ''constructor'' \<in> set Object_prototype_members
   \<and> measure_probe example_js ''i1'' example_constructor_blueprint 5 example_ctx empty_object
       = Inr \<lparr>instrumentId = ''i1'', pr_timestamp = 5, data = empty_object, severity = critical,
              tags = [(''kind'', ''composite''), (''phase'', ''after_action''),
                      (''sessionId'', ''s1''), (''taskId'', ''t1''),
                      (''actionType'', ''click'')]\<rparr>"
proof -
  let ?c = "\<lparr>field = ''constructor'', operator = Op_neq, threshold = JVal (Num 0),
             ac_severity = alert_critical, ac_message = ''never''\<rparr>"
  let ?d = "empty_object :: example_value jsval js_object"
  have h1: "own ?d (field ?c) = None" and h2: "inherits ?d"
    by (simp_all add: empty_object_def)
  have h3: "field ?c \<in> set Object_prototype_members"
    by (simp add: Object_prototype_members_def)
  have h4: "operator ?c = Op_neq" and h6: "ac_severity ?c = alert_critical" by simp_all
  have h5: "\<not> js_strict_eq example_js (JVal (js_builtin example_js (field ?c))) (threshold ?c)"
    by (simp add: example_js_def)
  have h7: "alertConditions example_constructor_blueprint = Some [?c]"
    by (simp add: example_constructor_blueprint_def)
  from inherited_field_triggers_alert [OF h1 h2 h3 h4 h5 h6 h7, of "''i1''" 5 example_ctx]
  obtain r where r: "measure_probe example_js ''i1'' example_constructor_blueprint 5 example_ctx ?d
                       = Inr r" "severity r = critical"
    by blast
  from r(1) have "r = \<lparr>instrumentId = ''i1'', pr_timestamp = 5, data = ?d, severity = severity r,
              tags = [(''kind'', ''composite''), (''phase'', ''after_action''),
                      (''sessionId'', ''s1''), (''taskId'', ''t1''),
                      (''actionType'', ''click'')]\<rparr>"
    by (auto simp: measure_probe_def example_constructor_blueprint_def example_ctx_def Let_def
          split: sum.splits)
  with r h1 h2 h3 show ?thesis by simp
qed

subsection \<open>Step executor: failures are reported in band\<close>




text \<open>
  A schema field named \<^verbatim>\<open>__proto__\<close> is not stored: on the example page, with the fields
  \<^verbatim>\<open>__proto__\<close> and \<^verbatim>\<open>title\<close>, the data has the key \<^verbatim>\<open>title\<close> only.
\<close>

lemma extract_proto_field_not_stored:
  "execute 0 1 (Extract ''a.nav'' [\<lparr>field_name = ''__proto__'', field_type = ''string''\<rparr>,
                                    \<lparr>field_name = ''title'', field_type = ''string''\<rparr>])
       \<lparr>page = example_page, ec_sessionId = ''s1''\<rparr>
     = Inr \<lparr>step = Extract ''a.nav'' [\<lparr>field_name = ''__proto__'', field_type = ''string''\<rparr>,
                                      \<lparr>field_name = ''title'', field_type = ''string''\<rparr>],
            success = True, durationMs = 1,
            sr_data = Some \<lparr>own = [''title'' \<mapsto> Some ''Home''], inherits = True\<rparr>,
            sr_error = None\<rparr>"
  by (simp add: execute_def extract_step_def example_page_def example_node_def empty_object_def
        result_set_def attribute_or_text_def)





subsection \<open>Scheduler: the loop and its invariant\<close>

text \<open>
  With unique task names, \<^verbatim>\<open>new Map\<close> keeps the task list as it is, the scan never meets a
  missing entry, and every round of the loop keeps the invariant and shortens \<open>remaining\<close>.
  So \<open>plan\<close> returns: either the batches, with nothing remaining, or the error that names
  the remaining tasks, none of which has its dependencies met.
\<close>

lemma map_set_fresh: "k \<notin> fst ` set m \<Longrightarrow> map_set m k v = m @ [(k, v)]"
  by (induction m) auto

lemma foldl_map_set_distinct:
  "distinct (map fst (m @ es)) \<Longrightarrow> foldl (\<lambda>m (k, v). map_set m k v) m es = m @ es"
proof (induction es arbitrary: m)
  case Nil
  then show ?case by simp
next
  case (Cons e es)
  obtain k v where e: "e = (k, v)" by (cases e)
  from Cons.prems e have "k \<notin> fst ` set m" by auto
  then have "map_set m k v = m @ [(k, v)]" by (rule map_set_fresh)
  moreover from Cons.prems e have "distinct (map fst ((m @ [(k, v)]) @ es))" by simp
  ultimately show ?case using Cons.IH [of "m @ [(k, v)]"] e by simp
qed

lemma new_Map_distinct: "distinct (map fst es) \<Longrightarrow> new_Map es = es"
  using foldl_map_set_distinct [of "[]" es] by (simp add: new_Map_def)

lemma plan_unfold:
  "distinct (map name (tasks w)) \<Longrightarrow>
   plan w = plan_loop (map (\<lambda>t. (name t, t)) (tasks w)) {} (map name (tasks w)) []"
  by (simp add: plan_def new_Map_distinct map_keys_def comp_def)

lemma task_lookup:
  "distinct (map name ts) \<Longrightarrow>
   (map_get (map (\<lambda>t. (name t, t)) ts) n = Some t) = (t \<in> set ts \<and> name t = n)"
  by (auto simp: map_get_def comp_def)

lemma dep_rel_iff: "((d, n) \<in> dep_rel ts) = (\<exists>t \<in> set ts. name t = n \<and> d \<in> set (dependsOn t))"
  by (auto simp: dep_rel_def)

lemma depsMet_iff: "depsMet C t = (set (dependsOn t) \<subseteq> C)"
  by (auto simp: depsMet_def list_all_iff)

lemma scan_ready:
  assumes "distinct (map name ts)" and "set R \<subseteq> name ` set ts"
  shows "\<exists>ready. scan (map (\<lambda>t. (name t, t)) ts) C R = Inr ready
           \<and> set ready \<subseteq> set ts
           \<and> map name ready = filter (\<lambda>n. \<forall>t \<in> set ts. name t = n \<longrightarrow> depsMet C t) R"
  using assms(2)
proof (induction R)
  case Nil
  then show ?case by simp
next
  case (Cons n R)
  then obtain t where t: "t \<in> set ts" "name t = n" by auto
  with assms(1) have l: "map_get (map (\<lambda>t. (name t, t)) ts) n = Some t"
    by (simp add: task_lookup)
  from Cons obtain ready where r: "scan (map (\<lambda>t. (name t, t)) ts) C R = Inr ready"
    "set ready \<subseteq> set ts"
    "map name ready = filter (\<lambda>n. \<forall>t \<in> set ts. name t = n \<longrightarrow> depsMet C t) R"
    by auto
  have u: "(\<forall>t' \<in> set ts. name t' = n \<longrightarrow> depsMet C t') = depsMet C t"
  proof
    assume "\<forall>t' \<in> set ts. name t' = n \<longrightarrow> depsMet C t'"
    with t show "depsMet C t" by simp
  next
    assume d: "depsMet C t"
    show "\<forall>t' \<in> set ts. name t' = n \<longrightarrow> depsMet C t'"
    proof (intro ballI impI)
      fix t' assume "t' \<in> set ts" "name t' = n"
      with t assms(1) have "t' = t" by (auto simp: distinct_map dest: inj_onD)
      with d show "depsMet C t'" by simp
    qed
  qed
  show ?case using l r t u by simp
qed


lemma plan_inv_step:
  assumes dts: "distinct (map name ts)"
      and inv: "plan_inv ts C R B"
      and sub: "set ready \<subseteq> set ts"
      and names: "map name ready = filter (\<lambda>n. \<forall>t \<in> set ts. name t = n \<longrightarrow> depsMet C t) R"
  shows "plan_inv ts (C \<union> set (map name ready))
           (filter (\<lambda>n. n \<notin> set (map name ready)) R) (B @ [ready])"
proof -
  let ?r = "dep_rel ts"
  let ?N = "set (map name ready)"
  from inv have dR: "distinct R" and disj: "C \<inter> set R = {}"
    and cover: "C \<union> set R = name ` set ts"
    and closed: "\<forall>n \<in> C. \<forall>d. (d, n) \<in> ?r \<longrightarrow> d \<in> C"
    and nocyc: "\<forall>n \<in> C. \<not> on_cycle ts n"
    and bsub: "set (concat B) \<subseteq> set ts"
    and bdist: "distinct (map name (concat B))"
    and bnames: "name ` set (concat B) = C"
    and border: "\<forall>i < length B. \<forall>t \<in> set (B ! i). \<forall>d \<in> set (dependsOn t).
                   \<exists>j < i. d \<in> name ` set (B ! j)"
    by (simp_all add: plan_inv_def)
  have NR: "?N \<subseteq> set R" unfolding names by auto
  have met: "depsMet C t" if "t \<in> set ready" for t
  proof -
    from that have "name t \<in> ?N" by simp
    then have "\<forall>t' \<in> set ts. name t' = name t \<longrightarrow> depsMet C t'" unfolding names by simp
    with that sub show ?thesis by auto
  qed
  have deps_in_C: "d \<in> C" if "n \<in> ?N" "(d, n) \<in> ?r" for d n
  proof -
    from that(1) obtain t where t: "t \<in> set ready" "name t = n" by auto
    from that(2) obtain t' where t': "t' \<in> set ts" "name t' = n" "d \<in> set (dependsOn t')"
      by (auto simp: dep_rel_iff)
    from t t' sub dts have "t' = t" by (auto simp: distinct_map dest: inj_onD)
    with met [OF t(1)] t'(3) show ?thesis by (auto simp: depsMet_iff)
  qed
  have i1: "distinct (filter (\<lambda>n. n \<notin> ?N) R)" using dR by simp
  have i2: "(C \<union> ?N) \<inter> set (filter (\<lambda>n. n \<notin> ?N) R) = {}" using disj by auto
  have i3: "(C \<union> ?N) \<union> set (filter (\<lambda>n. n \<notin> ?N) R) = name ` set ts"
    using cover NR sub by auto
  have i4: "\<forall>n \<in> C \<union> ?N. \<forall>d. (d, n) \<in> ?r \<longrightarrow> d \<in> C \<union> ?N"
    using closed deps_in_C by blast
  have i5: "\<forall>n \<in> C \<union> ?N. \<not> on_cycle ts n"
  proof
    fix n assume n: "n \<in> C \<union> ?N"
    show "\<not> on_cycle ts n"
    proof (cases "n \<in> C")
      case True
      with nocyc show ?thesis by simp
    next
      case False
      with n have nN: "n \<in> ?N" by simp
      show ?thesis
      proof
        assume "on_cycle ts n"
        then have "(n, n) \<in> ?r\<^sup>+" by (simp add: on_cycle_def)
        then obtain d where d: "(n, d) \<in> ?r\<^sup>*" "(d, n) \<in> ?r" by (auto dest: tranclD2)
        from deps_in_C [OF nN d(2)] have "d \<in> C" .
        moreover from d have "(d, d) \<in> ?r\<^sup>+" by (rule_tac rtrancl_into_trancl2)
        ultimately show False using nocyc by (simp add: on_cycle_def)
      qed
    qed
  qed
  have i6: "set (concat (B @ [ready])) \<subseteq> set ts" using bsub sub by simp
  have i7: "distinct (map name (concat (B @ [ready])))"
  proof -
    have "distinct (map name ready)" unfolding names using dR by simp
    moreover have "set (map name (concat B)) \<inter> set (map name ready) = {}"
      using bnames NR disj by auto
    ultimately show ?thesis using bdist by simp
  qed
  have i8: "name ` set (concat (B @ [ready])) = C \<union> ?N" using bnames by auto
  have i9: "\<forall>i < length (B @ [ready]). \<forall>t \<in> set ((B @ [ready]) ! i). \<forall>d \<in> set (dependsOn t).
              \<exists>j < i. d \<in> name ` set ((B @ [ready]) ! j)"
  proof (intro allI impI ballI)
    fix i t d
    assume i: "i < length (B @ [ready])" and t: "t \<in> set ((B @ [ready]) ! i)"
      and d: "d \<in> set (dependsOn t)"
    show "\<exists>j < i. d \<in> name ` set ((B @ [ready]) ! j)"
    proof (cases "i < length B")
      case True
      with t have "t \<in> set (B ! i)" by (simp add: nth_append)
      with border True d obtain j where j: "j < i" "d \<in> name ` set (B ! j)" by blast
      with True have "(B @ [ready]) ! j = B ! j" by (simp add: nth_append)
      with j show ?thesis by auto
    next
      case False
      with i have il: "i = length B" by simp
      with t have "t \<in> set ready" by simp
      from met [OF this] d have "d \<in> C" by (auto simp: depsMet_iff)
      with bnames obtain u where "u \<in> set (concat B)" "name u = d" by auto
      then obtain b where "b \<in> set B" "u \<in> set b" by auto
      then obtain j where j: "j < length B" "B ! j = b" by (auto simp: in_set_conv_nth)
      then have "(B @ [ready]) ! j = b" by (simp add: nth_append)
      with \<open>u \<in> set b\<close> \<open>name u = d\<close> have "d \<in> name ` set ((B @ [ready]) ! j)" by auto
      with j(1) il show ?thesis by auto
    qed
  qed
  show ?thesis unfolding plan_inv_def
    by (intro conjI i1 i2 i3 i4 i5 i6 i7 i8 i9)
qed


lemma plan_loop_result:
  assumes dts: "distinct (map name ts)" and inv: "plan_inv ts C R B"
  shows "(\<exists>B'. plan_loop (map (\<lambda>t. (name t, t)) ts) C R B = Some (Inr B')
              \<and> plan_inv ts (name ` set ts) [] B')
       \<or> (\<exists>C' R' B'. plan_loop (map (\<lambda>t. (name t, t)) ts) C R B = Some (Inl (CycleDetected R'))
              \<and> R' \<noteq> [] \<and> plan_inv ts C' R' B'
              \<and> (\<forall>t \<in> set ts. name t \<in> set R' \<longrightarrow> \<not> depsMet C' t))"
  using inv
proof (induction "length R" arbitrary: C R B rule: less_induct)
  case less
  let ?tm = "map (\<lambda>t. (name t, t)) ts"
  note inv = less.prems
  show ?case
  proof (cases "R = []")
    case True
    then have "plan_loop ?tm C R B = Some (Inr B)"
      by (subst plan_loop.simps) simp
    moreover from inv True have "C = name ` set ts" by (simp add: plan_inv_def)
    ultimately show ?thesis using inv True by auto
  next
    case False
    from inv have "set R \<subseteq> name ` set ts" by (auto simp: plan_inv_def)
    from scan_ready [OF dts this, of C] obtain ready where
      sc: "scan ?tm C R = Inr ready" and sub: "set ready \<subseteq> set ts"
      and names: "map name ready = filter (\<lambda>n. \<forall>t \<in> set ts. name t = n \<longrightarrow> depsMet C t) R"
      by blast
    show ?thesis
    proof (cases "ready = []")
      case True
      with False sc have "plan_loop ?tm C R B = Some (Inl (CycleDetected R))"
        by (subst plan_loop.simps) simp
      moreover have "\<forall>t \<in> set ts. name t \<in> set R \<longrightarrow> \<not> depsMet C t"
      proof (intro ballI impI)
        fix t assume t: "t \<in> set ts" "name t \<in> set R"
        from names True have "filter (\<lambda>n. \<forall>t \<in> set ts. name t = n \<longrightarrow> depsMet C t) R = []"
          by simp
        then have "\<forall>n \<in> set R. \<not> (\<forall>t \<in> set ts. name t = n \<longrightarrow> depsMet C t)"
          by (simp only: filter_empty_conv)
        with t(2) obtain t' where t': "t' \<in> set ts" "name t' = name t" "\<not> depsMet C t'"
          by blast
        with t(1) dts have "t' = t" by (auto simp: distinct_map dest: inj_onD)
        with t'(3) show "\<not> depsMet C t" by simp
      qed
      ultimately show ?thesis using False inv by blast
    next
      case nonempty: False
      let ?C = "C \<union> set (map name ready)"
      let ?R = "filter (\<lambda>n. n \<notin> set (map name ready)) R"
      from False nonempty sc have unf: "plan_loop ?tm C R B = plan_loop ?tm ?C ?R (B @ [ready])"
        by (subst plan_loop.simps) simp
      from nonempty obtain t where t: "t \<in> set ready" by (cases ready) auto
      then have "name t \<in> set (map name ready)" by simp
      moreover from this have "name t \<in> set R" unfolding names by simp
      ultimately have "length ?R < length R" by (intro length_filter_less [of "name t"]) auto
      moreover have "plan_inv ts ?C ?R (B @ [ready])"
        by (rule plan_inv_step [OF dts inv sub names])
      ultimately show ?thesis using less.hyps [of ?R ?C "B @ [ready]"] unf by simp
    qed
  qed
qed


lemma plan_inv_initial:
  "distinct (map name ts) \<Longrightarrow> plan_inv ts {} (map name ts) []"
  by (simp add: plan_inv_def)

lemma plan_result:
  assumes dts: "distinct (map name (tasks w))"
  shows "(\<exists>B'. plan w = Some (Inr B') \<and> plan_inv (tasks w) (name ` set (tasks w)) [] B')
       \<or> (\<exists>C' R' B'. plan w = Some (Inl (CycleDetected R'))
              \<and> R' \<noteq> [] \<and> plan_inv (tasks w) C' R' B'
              \<and> (\<forall>t \<in> set (tasks w). name t \<in> set R' \<longrightarrow> \<not> depsMet C' t))"
  using plan_loop_result [OF dts plan_inv_initial [OF dts]] plan_unfold [OF dts]
  by simp

lemma on_cycle_is_task: "on_cycle ts n \<Longrightarrow> n \<in> name ` set ts"
proof -
  assume "on_cycle ts n"
  then have "(n, n) \<in> (dep_rel ts)\<^sup>+" by (simp add: on_cycle_def)
  then have "n \<in> Range ((dep_rel ts)\<^sup>+)" by (rule RangeI)
  then have "n \<in> Range (dep_rel ts)" by (simp only: trancl_range)
  then show ?thesis by (auto simp: dep_rel_iff)
qed

lemma reachable_is_task:
  "(c, n) \<in> (dep_rel ts)\<^sup>* \<Longrightarrow> c \<in> name ` set ts \<Longrightarrow> n \<in> name ` set ts"
  by (induction rule: rtrancl_induct) (auto simp: dep_rel_iff)

lemma closed_backwards:
  assumes "\<forall>n \<in> C. \<forall>d. (d, n) \<in> r \<longrightarrow> d \<in> C" and "(c, n) \<in> r\<^sup>*" and "n \<in> C"
  shows "c \<in> C"
  using assms(2,3)
proof (induction rule: converse_rtrancl_induct)
  case base
  then show ?case by simp
next
  case (step y z)
  from step.IH [OF step.prems] have "z \<in> C" .
  with assms(1) step.hyps(1) show ?case by blast
qed

lemma stalled_has_blocker:
  assumes closed: "\<forall>t \<in> set ts. set (dependsOn t) \<subseteq> name ` set ts"
      and inv: "plan_inv ts C R B"
      and stuck: "\<forall>t \<in> set ts. name t \<in> set R \<longrightarrow> \<not> depsMet C t"
      and n: "n \<in> set R"
  shows "\<exists>d \<in> set R. (d, n) \<in> dep_rel ts"
proof -
  from inv have cover: "C \<union> set R = name ` set ts" by (simp add: plan_inv_def)
  with n have "n \<in> name ` set ts" by blast
  then obtain t where t: "t \<in> set ts" "name t = n" by auto
  with stuck n have "\<not> depsMet C t" by simp
  then obtain d where d: "d \<in> set (dependsOn t)" "d \<notin> C" by (auto simp: depsMet_iff)
  with closed t(1) have "d \<in> name ` set ts" by auto
  with cover d(2) have "d \<in> set R" by auto
  moreover from t d(1) have "(d, n) \<in> dep_rel ts" by (auto simp: dep_rel_iff)
  ultimately show ?thesis by blast
qed

subsection \<open>Scheduler: acyclic workflows\<close>

lemma batches_are_tasks:
  assumes dts: "distinct (map name ts)" and inv: "plan_inv ts (name ` set ts) [] B"
  shows "mset (concat B) = mset ts"
proof -
  from inv have sub: "set (concat B) \<subseteq> set ts"
    and dist: "distinct (map name (concat B))"
    and names: "name ` set (concat B) = name ` set ts"
    by (simp_all add: plan_inv_def)
  have "set ts \<subseteq> set (concat B)"
  proof
    fix t assume t: "t \<in> set ts"
    then have "name t \<in> name ` set (concat B)" unfolding names by simp
    then obtain u where u: "name t = name u" "u \<in> set (concat B)" by (rule imageE)
    with sub t dts have "u = t" by (auto simp: distinct_map dest: inj_onD)
    with u show "t \<in> set (concat B)" by simp
  qed
  with sub have "set (concat B) = set ts" by blast
  moreover from dist have "distinct (concat B)" by (simp add: distinct_map)
  moreover from dts have "distinct ts" by (simp add: distinct_map)
  ultimately show ?thesis by (simp only: set_eq_iff_mset_eq_distinct)
qed

text \<open>
  C1 (as stated, refuted): for every workflow with an acyclic dependency relation whose
  \<open>dependsOn\<close> entries name defined tasks, the batches would hold every task exactly once.
  The task map is keyed by name, so of two tasks with one name only the later definition
  is planned: for A (depending on B), B and a second A, \<open>plan\<close> returns the single batch of
  the second A and B, and the first A is in no batch.
\<close>

theorem plan_duplicate_name_omits_task:
  "acyclic (dep_rel (tasks (example_workflow example_duplicate)))
   \<and> list_all (\<lambda>t. set (dependsOn t) \<subseteq> name ` set (tasks (example_workflow example_duplicate)))
        (tasks (example_workflow example_duplicate))
   \<and> plan (example_workflow example_duplicate)
       = Some (Inr [[example_task ''A'' [] 0, example_task ''B'' [] 0]])
   \<and> example_task ''A'' [''B''] 0 \<in> set (tasks (example_workflow example_duplicate))
   \<and> example_task ''A'' [''B''] 0 \<notin> set (concat [[example_task ''A'' [] 0, example_task ''B'' [] 0]])
   \<and> mset (concat [[example_task ''A'' [] 0, example_task ''B'' [] 0]])
       \<noteq> mset (tasks (example_workflow example_duplicate))"
proof -
  let ?w = "example_workflow example_duplicate"
  have r: "dep_rel (tasks ?w) = {(''B'', ''A'')}"
    by (simp add: dep_rel_def example_workflow_def example_duplicate_def example_task_def)
  have a: "acyclic (dep_rel (tasks ?w))" unfolding r by (simp add: wf_acyclic)
  have d: "list_all (\<lambda>t. set (dependsOn t) \<subseteq> name ` set (tasks ?w)) (tasks ?w)"
    by (simp add: example_workflow_def example_duplicate_def example_task_def)
  have p: "plan ?w = Some (Inr [[example_task ''A'' [] 0, example_task ''B'' [] 0]])"
    by (simp add: plan_def example_workflow_def example_duplicate_def example_task_def new_Map_def
          map_keys_def map_get_def depsMet_def plan_loop.simps)
  have i: "example_task ''A'' [''B''] 0 \<in> set (tasks ?w)"
    by (simp add: example_workflow_def example_duplicate_def)
  have o: "example_task ''A'' [''B''] 0 \<notin> set (concat [[example_task ''A'' [] 0, example_task ''B'' [] 0]])"
    by (simp add: example_task_def)
  have m: "mset (concat [[example_task ''A'' [] 0, example_task ''B'' [] 0]]) \<noteq> mset (tasks ?w)"
  proof
    assume "mset (concat [[example_task ''A'' [] 0, example_task ''B'' [] 0]]) = mset (tasks ?w)"
    then have "set (concat [[example_task ''A'' [] 0, example_task ''B'' [] 0]]) = set (tasks ?w)"
      by (rule mset_eq_setD)
    with i o show False by blast
  qed
  from a d p i o m show ?thesis by (intro conjI)
qed

text \<open>
  C1 (amended): for every workflow with unique task names whose \<open>dependsOn\<close> entries name
  tasks of the workflow and whose dependency relation is acyclic, \<open>plan\<close> returns batches
  (it neither throws nor runs forever); every \<open>dependsOn\<close> entry of a task in batch \<open>i\<close>
  names a task in a batch \<open>j < i\<close>; and the concatenation of the batches holds every task
  of the workflow exactly once (it is a permutation of the task list).
\<close>

theorem plan_acyclic_batches:
  assumes "distinct (map name (tasks w))"
      and "\<forall>t \<in> set (tasks w). set (dependsOn t) \<subseteq> name ` set (tasks w)"
      and "acyclic (dep_rel (tasks w))"
  shows "\<exists>batches.
           plan w = Some (Inr batches)
         \<and> mset (concat batches) = mset (tasks w)
         \<and> (\<forall>i < length batches. \<forall>t \<in> set (batches ! i). \<forall>d \<in> set (dependsOn t).
               \<exists>j < i. d \<in> name ` set (batches ! j))"
proof -
  let ?ts = "tasks w"
  from plan_result [OF assms(1)] show ?thesis
  proof (elim disjE exE conjE)
    fix B'
    assume p: "plan w = Some (Inr B')" and inv: "plan_inv ?ts (name ` set ?ts) [] B'"
    from inv have "\<forall>i < length B'. \<forall>t \<in> set (B' ! i). \<forall>d \<in> set (dependsOn t).
               \<exists>j < i. d \<in> name ` set (B' ! j)"
      by (simp add: plan_inv_def)
    with p batches_are_tasks [OF assms(1) inv] show ?thesis by blast
  next
    fix C' R' B'
    assume ne: "R' \<noteq> []" and inv: "plan_inv ?ts C' R' B'"
      and stuck: "\<forall>t \<in> set ?ts. name t \<in> set R' \<longrightarrow> \<not> depsMet C' t"
    have "finite (dep_rel ?ts)" by (simp add: dep_rel_def)
    from this assms(3) have "wf (dep_rel ?ts)" by (rule finite_acyclic_wf)
    moreover from ne have "hd R' \<in> set R'" by simp
    ultimately obtain z where z: "z \<in> set R'" "\<And>y. (y, z) \<in> dep_rel ?ts \<Longrightarrow> y \<notin> set R'"
      by (rule wfE_min) blast
    from stalled_has_blocker [OF assms(2) inv stuck z(1)] z(2) have False by blast
    then show ?thesis ..
  qed
qed



theorem plan_acyclic_batches_witness:
  "distinct (map name (tasks (example_workflow example_diamond)))
   \<and> list_all (\<lambda>t. set (dependsOn t) \<subseteq> name ` set (tasks (example_workflow example_diamond)))
        (tasks (example_workflow example_diamond))
   \<and> acyclic (dep_rel (tasks (example_workflow example_diamond)))
   \<and> plan (example_workflow example_diamond)
       = Some (Inr [[example_task ''A'' [] 0],
                    [example_task ''B'' [''A''] 0, example_task ''C'' [''A''] 0],
                    [example_task ''D'' [''B'', ''C''] 0]])
   \<and> mset (concat [[example_task ''A'' [] 0],
                    [example_task ''B'' [''A''] 0, example_task ''C'' [''A''] 0],
                    [example_task ''D'' [''B'', ''C''] 0]])
       = mset (tasks (example_workflow example_diamond))"
proof -
  let ?w = "example_workflow example_diamond"
  have h1: "distinct (map name (tasks ?w))"
    by (simp add: example_workflow_def example_diamond_def example_task_def)
  have h2: "\<forall>t \<in> set (tasks ?w). set (dependsOn t) \<subseteq> name ` set (tasks ?w)"
    by (simp add: example_workflow_def example_diamond_def example_task_def)
  have h3: "acyclic (dep_rel (tasks ?w))"
  proof (rule acyclicI_order [where f = "\<lambda>n. if n = ''A'' then (3::nat) else if n = ''D'' then 1 else 2"])
    fix a b assume "(a, b) \<in> dep_rel (tasks ?w)"
    then show "(if b = ''A'' then (3::nat) else if b = ''D'' then 1 else 2)
             < (if a = ''A'' then (3::nat) else if a = ''D'' then 1 else 2)"
      by (auto simp: dep_rel_def example_workflow_def example_diamond_def example_task_def)
  qed
  have p: "plan ?w = Some (Inr [[example_task ''A'' [] 0],
                    [example_task ''B'' [''A''] 0, example_task ''C'' [''A''] 0],
                    [example_task ''D'' [''B'', ''C''] 0]])"
    by (simp add: plan_def example_workflow_def example_diamond_def example_task_def new_Map_def
        map_keys_def map_get_def depsMet_def plan_loop.simps)
  from plan_acyclic_batches [OF h1 h2 h3] p
  have "mset (concat [[example_task ''A'' [] 0],
                    [example_task ''B'' [''A''] 0, example_task ''C'' [''A''] 0],
                    [example_task ''D'' [''B'', ''C''] 0]]) = mset (tasks ?w)"
    by auto
  with h1 h2 h3 p show ?thesis by (simp add: list_all_iff)
qed


subsection \<open>Scheduler: cycles\<close>

lemma stalled_reaches_cycle:
  assumes closed: "\<forall>t \<in> set ts. set (dependsOn t) \<subseteq> name ` set ts"
      and inv: "plan_inv ts C R B"
      and stuck: "\<forall>t \<in> set ts. name t \<in> set R \<longrightarrow> \<not> depsMet C t"
      and n: "n \<in> set R"
  shows "\<exists>c. on_cycle ts c \<and> (c, n) \<in> (dep_rel ts)\<^sup>*"
proof -
  let ?r = "dep_rel ts"
  let ?S = "{y \<in> set R. (y, n) \<in> ?r\<^sup>*}"
  let ?rS = "{(a, b) \<in> ?r. a \<in> ?S \<and> b \<in> ?S}"
  have sub: "?rS \<subseteq> ?r" by blast
  have "\<not> acyclic ?rS"
  proof
    assume "acyclic ?rS"
    moreover have "finite ?rS" by (rule finite_subset [OF sub]) (simp add: dep_rel_def)
    ultimately have "wf ?rS" by (rule_tac finite_acyclic_wf)
    moreover from n have "n \<in> ?S" by simp
    ultimately obtain z where z: "z \<in> ?S" "\<And>y. (y, z) \<in> ?rS \<Longrightarrow> y \<notin> ?S"
      by (rule wfE_min) blast
    from z(1) have zR: "z \<in> set R" and zn: "(z, n) \<in> ?r\<^sup>*" by simp_all
    from stalled_has_blocker [OF closed inv stuck zR]
    obtain d where d: "d \<in> set R" "(d, z) \<in> ?r" by blast
    from d(2) zn have "(d, n) \<in> ?r\<^sup>*" by (rule converse_rtrancl_into_rtrancl)
    with d(1) have dS: "d \<in> ?S" by simp
    with d(2) z(1) have "(d, z) \<in> ?rS" by simp
    from z(2) [OF this] dS show False by simp
  qed
  then obtain c where c: "(c, c) \<in> ?rS\<^sup>+" by (auto simp: acyclic_def)
  from c have "c \<in> Domain (?rS\<^sup>+)" by (rule DomainI)
  then have "c \<in> Domain ?rS" by (simp only: trancl_domain)
  then have "(c, n) \<in> ?r\<^sup>*" by auto
  moreover from c sub have "(c, c) \<in> ?r\<^sup>+" by (rule trancl_mono)
  ultimately show ?thesis by (auto simp: on_cycle_def)
qed

text \<open>
  C2 (as stated, refuted): the tasks named in the error would be exactly the tasks on a
  dependency cycle. With A and B depending on each other and C depending on A, the error
  names A, B and C, and C is on no cycle.
\<close>

theorem cycle_error_names_downstream_task:
  "plan (example_workflow example_cyclic) = Some (Inl (CycleDetected [''A'', ''B'', ''C'']))
   \<and> ''C'' \<in> set [''A'', ''B'', ''C'']
   \<and> \<not> on_cycle (tasks (example_workflow example_cyclic)) ''C''"
proof -
  let ?ts = "tasks (example_workflow example_cyclic)"
  have p: "plan (example_workflow example_cyclic)
             = Some (Inl (CycleDetected [''A'', ''B'', ''C'']))"
    by (simp add: plan_def example_workflow_def example_cyclic_def example_task_def new_Map_def
          map_keys_def map_get_def depsMet_def plan_loop.simps)
  have "\<not> on_cycle ?ts ''C''"
  proof
    assume "on_cycle ?ts ''C''"
    then have "(''C'', ''C'') \<in> (dep_rel ?ts)\<^sup>+" by (simp add: on_cycle_def)
    then have "''C'' \<in> Domain ((dep_rel ?ts)\<^sup>+)" by (rule DomainI)
    then have "''C'' \<in> Domain (dep_rel ?ts)" by (simp only: trancl_domain)
    then show False
      by (auto simp: dep_rel_def example_workflow_def example_cyclic_def example_task_def)
  qed
  with p show ?thesis by simp
qed

text \<open>
  C2 (amended): for every workflow with unique task names whose dependency relation has a
  cycle, \<open>plan\<close> fails with \<open>CycleDetected\<close>. The error names the tasks still remaining, each
  once: every task on a cycle is named, and so is every task that depends, directly or
  through other tasks, on a task on a cycle; when all \<open>dependsOn\<close> entries name tasks of the
  workflow, these are the only tasks named.
\<close>

theorem plan_cycle_detected:
  assumes "distinct (map name (tasks w))" and "on_cycle (tasks w) c"
  shows "\<exists>named.
           plan w = Some (Inl (CycleDetected named))
         \<and> distinct named \<and> set named \<subseteq> name ` set (tasks w)
         \<and> (\<forall>n. on_cycle (tasks w) n \<longrightarrow> n \<in> set named)
         \<and> (\<forall>n c'. on_cycle (tasks w) c' \<and> (c', n) \<in> (dep_rel (tasks w))\<^sup>* \<longrightarrow> n \<in> set named)
         \<and> ((\<forall>t \<in> set (tasks w). set (dependsOn t) \<subseteq> name ` set (tasks w))
              \<longrightarrow> (\<forall>n \<in> set named. \<exists>c'. on_cycle (tasks w) c' \<and> (c', n) \<in> (dep_rel (tasks w))\<^sup>*))"
proof -
  let ?ts = "tasks w"
  let ?r = "dep_rel ?ts"
  from plan_result [OF assms(1)] show ?thesis
  proof (elim disjE exE conjE)
    fix B'
    assume inv: "plan_inv ?ts (name ` set ?ts) [] B'"
    then have "\<forall>n \<in> name ` set ?ts. \<not> on_cycle ?ts n" by (simp add: plan_inv_def)
    with on_cycle_is_task [OF assms(2)] assms(2) have False by blast
    then show ?thesis ..
  next
    fix C' R' B'
    assume p: "plan w = Some (Inl (CycleDetected R'))" and inv: "plan_inv ?ts C' R' B'"
      and stuck: "\<forall>t \<in> set ?ts. name t \<in> set R' \<longrightarrow> \<not> depsMet C' t"
    from inv have dR: "distinct R'" and disj: "C' \<inter> set R' = {}"
      and cover: "C' \<union> set R' = name ` set ?ts"
      and closed: "\<forall>n \<in> C'. \<forall>d. (d, n) \<in> ?r \<longrightarrow> d \<in> C'"
      and nocyc: "\<forall>n \<in> C'. \<not> on_cycle ?ts n"
      by (simp_all add: plan_inv_def)
    from cover have sub: "set R' \<subseteq> name ` set ?ts" by blast
    have down: "n \<in> set R'" if "on_cycle ?ts c'" "(c', n) \<in> ?r\<^sup>*" for n c'
    proof -
      from that(1) have c'N: "c' \<in> name ` set ?ts" by (rule on_cycle_is_task)
      from reachable_is_task [OF that(2) this] have "n \<in> name ` set ?ts" .
      moreover have "n \<notin> C'"
      proof
        assume "n \<in> C'"
        from closed_backwards [OF closed that(2) this] have "c' \<in> C'" .
        with nocyc that(1) show False by blast
      qed
      ultimately show ?thesis using cover by blast
    qed
    have cyc: "\<forall>n. on_cycle ?ts n \<longrightarrow> n \<in> set R'"
      using down [OF _ rtrancl_refl] by blast
    have reach: "(\<forall>t \<in> set ?ts. set (dependsOn t) \<subseteq> name ` set ?ts)
              \<longrightarrow> (\<forall>n \<in> set R'. \<exists>c'. on_cycle ?ts c' \<and> (c', n) \<in> ?r\<^sup>*)"
      using stalled_reaches_cycle [OF _ inv stuck] by blast
    from p dR sub cyc down reach show ?thesis by blast
  qed
qed


theorem plan_cycle_detected_witness:
  "distinct (map name (tasks (example_workflow example_cyclic)))
   \<and> on_cycle (tasks (example_workflow example_cyclic)) ''A''
   \<and> plan (example_workflow example_cyclic) = Some (Inl (CycleDetected [''A'', ''B'', ''C'']))
   \<and> (\<exists>named. plan (example_workflow example_cyclic) = Some (Inl (CycleDetected named))
         \<and> distinct named \<and> ''A'' \<in> set named)"
proof -
  let ?w = "example_workflow example_cyclic"
  have h1: "distinct (map name (tasks ?w))"
    by (simp add: example_workflow_def example_cyclic_def example_task_def)
  have "(''A'', ''B'') \<in> dep_rel (tasks ?w)" and "(''B'', ''A'') \<in> dep_rel (tasks ?w)"
    by (simp_all add: dep_rel_def example_workflow_def example_cyclic_def example_task_def)
  then have "(''A'', ''A'') \<in> (dep_rel (tasks ?w))\<^sup>+" by (rule trancl_into_trancl [OF r_into_trancl])
  then have h2: "on_cycle (tasks ?w) ''A''" by (simp add: on_cycle_def)
  have p: "plan ?w = Some (Inl (CycleDetected [''A'', ''B'', ''C'']))"
    by (simp add: plan_def example_workflow_def example_cyclic_def example_task_def new_Map_def
          map_keys_def map_get_def depsMet_def plan_loop.simps)
  from plan_cycle_detected [OF h1 h2] h2
  have "\<exists>named. plan ?w = Some (Inl (CycleDetected named)) \<and> distinct named \<and> ''A'' \<in> set named"
    by blast
  with h1 h2 p show ?thesis by (intro conjI)
qed

end
